(* ===== verification/Prelude.thy ===== *)
theory Prelude
  imports Main "HOL-Library.Multiset" "HOL-Library.Sublist"
begin

text \<open>
  Shared vocabulary of the gift-exchange development. Participants are display names,
  i.e.\ JavaScript strings; the model represents them as HOL strings holding the UTF-8
  bytes of the name. The JavaScript idiom \<^verbatim>\<open>if (!xs.includes(x)) xs.push(x)\<close>, which
  the spin handler uses for its two bookkeeping arrays, is the list operation
  \<open>push_new\<close>. The collections \<open>handler_defs\<close> (the definitions unfolded when a proof
  runs a handler) and \<open>inv_simps\<close> (facts about the invariants) let component
  proofs say \<open>simp add: handler_defs\<close>.
\<close>

type_synonym name = string

named_theorems handler_defs "definitions of the page's handlers, unfolded to run them"
named_theorems inv_simps "rewrite rules used by the invariant proofs"

definition push_new :: "'a \<Rightarrow> 'a list \<Rightarrow> 'a list" where
  "push_new x xs = (if x \<in> set xs then xs else xs @ [x])"

subsection \<open>Lemmas on \<open>push_new\<close>\<close>

lemma set_push_new [simp]: "set (push_new x xs) = insert x (set xs)"
  by (auto simp: push_new_def)

lemma distinct_push_new [simp]: "distinct (push_new x xs) = distinct xs"
  by (simp add: push_new_def)

lemma push_new_fresh [simp]: "x \<notin> set xs \<Longrightarrow> push_new x xs = xs @ [x]"
  by (simp add: push_new_def)

lemma push_new_prefix: "prefix xs (push_new x xs)"
  by (simp add: push_new_def)

lemma length_push_new_fresh: "x \<notin> set xs \<Longrightarrow> length (push_new x xs) = Suc (length xs)"
  by simp

subsection \<open>Lists used as sets\<close>

text \<open>
  The page keeps its sets (played, claimed) as arrays and tests membership with
  \<^verbatim>\<open>includes\<close>. Counting arguments compare such arrays by their lengths.
\<close>

lemma distinct_length_le_subset:
  "distinct xs \<Longrightarrow> set xs \<subseteq> set ys \<Longrightarrow> length xs \<le> length (remdups ys)"
proof -
  assume d: "distinct xs" and s: "set xs \<subseteq> set ys"
  have "length xs = card (set xs)" using d by (simp add: distinct_card)
  also have "\<dots> \<le> card (set ys)" using s by (simp add: card_mono)
  also have "\<dots> = length (remdups ys)" by (simp add: length_remdups_card_conv)
  finally show ?thesis .
qed

lemma distinct_length_eq_set:
  "distinct xs \<Longrightarrow> distinct ys \<Longrightarrow> set xs \<subseteq> set ys \<Longrightarrow> length ys \<le> length xs \<Longrightarrow>
   set xs = set ys"
proof -
  assume "distinct xs" "distinct ys" "set xs \<subseteq> set ys" "length ys \<le> length xs"
  then have "card (set ys) \<le> card (set xs)" by (simp add: distinct_card)
  with \<open>set xs \<subseteq> set ys\<close> show ?thesis by (simp add: card_seteq)
qed

lemma length_filter_not_in:
  assumes "distinct ps" and "distinct qs" and "set qs \<subseteq> set ps"
  shows "length (filter (\<lambda>p. p \<notin> set qs) ps) + length qs = length ps"
proof -
  have l: "length (filter (\<lambda>p. p \<notin> set qs) ps) = card (set (filter (\<lambda>p. p \<notin> set qs) ps))"
    using distinct_card [OF distinct_filter [OF assms(1)]] by (rule sym)
  have "set (filter (\<lambda>p. p \<notin> set qs) ps) = set ps - set qs" by auto
  with l have "length (filter (\<lambda>p. p \<notin> set qs) ps) = card (set ps) - card (set qs)"
    using assms(3) by (simp add: card_Diff_subset)
  then show ?thesis
    using assms card_mono [OF _ assms(3)] by (simp add: distinct_card)
qed

lemma filter_empty_iff: "(filter P xs = []) = (\<forall>x \<in> set xs. \<not> P x)"
  by (simp add: filter_empty_conv)

lemma mod_length_less [simp]: "xs \<noteq> [] \<Longrightarrow> r mod length xs < length xs"
  by simp

lemma nth_mod_in_set [intro]: "xs \<noteq> [] \<Longrightarrow> xs ! (r mod length xs) \<in> set xs"
  by simp

end
