(* ===== verification/Engine.thy ===== *)
theory Engine
  imports Prelude
begin

text \<open>
  The exchange engine: the module-level game state of \<^verbatim>\<open>src/gift-game.js\<close> (lines 6--11)
  as the record \<open>game\<close>, and the pure parts of the handlers that read and write it:
  which names the wheel shows (\<^verbatim>\<open>startSpin\<close>, \<^verbatim>\<open>handleSpinComplete\<close>, \<^verbatim>\<open>drawWheel\<close>), who
  may be chosen as the next spinner (\<^verbatim>\<open>populatePlayerSelection\<close>), choosing one
  (\<^verbatim>\<open>selectPlayer\<close>) and the resolution of a finished spin (\<^verbatim>\<open>handleSpinComplete\<close>
  together with the next-player rule of \<^verbatim>\<open>showWinnerModal\<close>). The DOM, audio and
  animation code around them is left out; the continuous wheel angle is replaced by
  the integer \<open>r\<close> that the code reduces \<^verbatim>\<open>% wheelNames.length\<close>.
\<close>

section \<open>State\<close>

record assignment =
  player :: name
  gift :: name

record game =
  participants :: "name list"
  playedParticipants :: "name list"
  claimedGifts :: "name list"
  availableParticipants :: "name list"
  currentPlayer :: "name option"
  giftAssignments :: "assignment list"

definition empty_game :: game where
  "empty_game = \<lparr>participants = [], playedParticipants = [], claimedGifts = [],
     availableParticipants = [], currentPlayer = None, giftAssignments = []\<rparr>"

section \<open>The wheel\<close>

text \<open>
  \<^verbatim>\<open>startSpin\<close> and \<^verbatim>\<open>handleSpinComplete\<close> compute the wheel the same way: everyone but
  the current player whose gift is still unclaimed, or, when nobody is left, everyone
  but the current player (swap mode).
\<close>

definition normal_wheel :: "game \<Rightarrow> name \<Rightarrow> name list" where
  "normal_wheel g c = filter (\<lambda>p. p \<noteq> c \<and> p \<notin> set (claimedGifts g)) (participants g)"

definition swap_wheel :: "game \<Rightarrow> name \<Rightarrow> name list" where
  "swap_wheel g c = filter (\<lambda>p. p \<noteq> c) (participants g)"

definition wheelNames :: "game \<Rightarrow> name \<Rightarrow> name list \<times> bool" where
  "wheelNames g c =
     (if normal_wheel g c = [] then (swap_wheel g c, True) else (normal_wheel g c, False))"

text \<open>The placeholder slice drawn on an empty wheel, 'no names' in Thai (UTF-8).\<close>

definition noNamesLabel :: string where
  "noNamesLabel = [CHR 0xE0, CHR 0xB9, CHR 0x84, CHR 0xE0, CHR 0xB8, CHR 0xA1,
     CHR 0xE0, CHR 0xB9, CHR 0x88, CHR 0xE0, CHR 0xB8, CHR 0xA1, CHR 0xE0, CHR 0xB8, CHR 0xB5,
     CHR 0xE0, CHR 0xB8, CHR 0xA3, CHR 0xE0, CHR 0xB8, CHR 0xB2, CHR 0xE0, CHR 0xB8, CHR 0xA2,
     CHR 0xE0, CHR 0xB8, CHR 0x8A, CHR 0xE0, CHR 0xB8, CHR 0xB7, CHR 0xE0, CHR 0xB9, CHR 0x88,
     CHR 0xE0, CHR 0xB8, CHR 0xAD]"

text \<open>
  \<^verbatim>\<open>drawWheel\<close> recomputes the names on every frame; its swap test is
  \<^verbatim>\<open>participants.length > 0\<close> instead of the empty swap wheel check of \<^verbatim>\<open>startSpin\<close>.
\<close>

definition drawWheel_names :: "game \<Rightarrow> name list" where
  "drawWheel_names g =
     (let ws = (case currentPlayer g of
                  Some c \<Rightarrow> (if normal_wheel g c = [] \<and> participants g \<noteq> []
                             then swap_wheel g c else normal_wheel g c)
                | None \<Rightarrow> participants g)
      in if ws = [] then [noNamesLabel] else ws)"

text \<open>
  The slice under the pointer: the code computes
  \<^verbatim>\<open>Math.floor(adjustedAngle / sliceAngle) % wheelNames.length\<close>; \<open>r\<close> is the floor.
\<close>

definition winnerIndex :: "nat \<Rightarrow> name list \<Rightarrow> nat" where
  "winnerIndex r w = r mod length w"

section \<open>Choosing the spinner\<close>

definition populatePlayerSelection :: "game \<Rightarrow> name list" where
  "populatePlayerSelection g =
     (if playedParticipants g = [] then participants g
      else filter (\<lambda>p. p \<notin> set (claimedGifts g)) (participants g))"

definition selectPlayer :: "name \<Rightarrow> game \<Rightarrow> game" where
  "selectPlayer n g = g\<lparr>currentPlayer := Some n\<rparr>"

section \<open>Resolving a spin\<close>

text \<open>
  \<^verbatim>\<open>giftAssignments.find(a => a.player === victim)\<close> returns a reference to the first
  matching entry, which the swap then mutates in place: \<open>set_first_gift\<close>.
\<close>

fun set_first_gift :: "name \<Rightarrow> name \<Rightarrow> assignment list \<Rightarrow> assignment list" where
  "set_first_gift v x [] = []"
| "set_first_gift v x (a # as) =
     (if player a = v then a\<lparr>gift := x\<rparr> # as else a # set_first_gift v x as)"

text \<open>
  The swap branch: the victim's entry now holds the spinner, and the spinner gets the
  victim's old gift; without an entry for the victim nothing is swapped and the
  victim is the gift owner. Result: the new assignment list and the gift owner.
\<close>

definition swap_gifts :: "name \<Rightarrow> name \<Rightarrow> assignment list \<Rightarrow> assignment list \<times> name" where
  "swap_gifts playerWhoSpun victim as =
     (case find (\<lambda>a. player a = victim) as of
        Some va \<Rightarrow> (set_first_gift victim playerWhoSpun as, gift va)
      | None \<Rightarrow> (as, victim))"

text \<open>
  The two warnings \<^verbatim>\<open>handleSpinComplete\<close> hands to \<^verbatim>\<open>showWinnerModal\<close>, read before the
  arrays are updated; swap mode forces both to false.
\<close>

definition winner_warnings :: "game \<Rightarrow> bool \<Rightarrow> name \<Rightarrow> bool \<times> bool" where
  "winner_warnings g isSwapMode winner =
     (let giftAlreadyClaimed = winner \<in> set (claimedGifts g);
          winnerHasPlayed = winner \<in> set (playedParticipants g)
      in (if isSwapMode then False else giftAlreadyClaimed,
          if isSwapMode then False else winnerHasPlayed))"

text \<open>\<^verbatim>\<open>showWinnerModal\<close> picks the next spinner: nobody after a warning, else the gift owner.\<close>

definition next_player :: "bool \<times> bool \<Rightarrow> name \<Rightarrow> name option" where
  "next_player warnings giftOwner =
     (case warnings of (giftAlreadyClaimed, winnerHasPlayed) \<Rightarrow>
        if giftAlreadyClaimed \<or> winnerHasPlayed then None else Some giftOwner)"

definition record_result :: "bool \<Rightarrow> name \<Rightarrow> name \<Rightarrow> game \<Rightarrow> game" where
  "record_result isSwapMode playerWhoSpun giftOwner g =
     (let played' = push_new playerWhoSpun (playedParticipants g);
          claimed' = (if isSwapMode then push_new playerWhoSpun (claimedGifts g)
                      else push_new giftOwner (claimedGifts g))
      in g\<lparr>giftAssignments := giftAssignments g @ [\<lparr>player = playerWhoSpun, gift = giftOwner\<rparr>],
           playedParticipants := played', claimedGifts := claimed',
           availableParticipants := filter (\<lambda>p. p \<notin> set played') (participants g)\<rparr>)"

text \<open>
  The whole handler. It is only reached from \<^verbatim>\<open>startSpin\<close>, which has checked that a
  current player exists and that the wheel is not empty; the two other cases (where
  the JavaScript would go on with \<^verbatim>\<open>null\<close> or \<^verbatim>\<open>undefined\<close>) are \<open>None\<close>.
\<close>

definition handleSpinComplete :: "nat \<Rightarrow> game \<Rightarrow> game option" where
  "handleSpinComplete r g =
     (case currentPlayer g of
        None \<Rightarrow> None
      | Some playerWhoSpun \<Rightarrow>
          (case wheelNames g playerWhoSpun of (w, isSwapMode) \<Rightarrow>
             if w = [] then None
             else
               (let winner = w ! winnerIndex r w;
                    (as', giftOwner) =
                      (if isSwapMode then swap_gifts playerWhoSpun winner (giftAssignments g)
                       else (giftAssignments g, winner));
                    g1 = g\<lparr>currentPlayer := next_player (winner_warnings g isSwapMode winner) giftOwner,
                           giftAssignments := as'\<rparr>
                in Some (record_result isSwapMode playerWhoSpun giftOwner g1))))"

section \<open>Abstract view of the assignment log\<close>

text \<open>
  Read as a partial function from player to gift owner, the log is what the summary
  table shows. The abstract spin operations say what a spin does to that function:
  a normal spin gives the spinner the drawn gift; a swap gives the victim the
  spinner's gift and the spinner the victim's old one.
\<close>

definition assign_map :: "assignment list \<Rightarrow> name \<rightharpoonup> name" where
  "assign_map as = map_of (map (\<lambda>a. (player a, gift a)) as)"

definition abs_give :: "(name \<rightharpoonup> name) \<Rightarrow> name \<Rightarrow> name \<Rightarrow> (name \<rightharpoonup> name)" where
  "abs_give m c w = m(c \<mapsto> w)"

definition abs_swap :: "(name \<rightharpoonup> name) \<Rightarrow> name \<Rightarrow> name \<Rightarrow> (name \<rightharpoonup> name)" where
  "abs_swap m c v = (case m v of Some g \<Rightarrow> m(v \<mapsto> c, c \<mapsto> g) | None \<Rightarrow> m(c \<mapsto> v))"

declare normal_wheel_def [handler_defs] swap_wheel_def [handler_defs]
  wheelNames_def [handler_defs] selectPlayer_def [handler_defs]
  populatePlayerSelection_def [handler_defs] next_player_def [handler_defs]
  winner_warnings_def [handler_defs]
  record_result_def [handler_defs] swap_gifts_def [handler_defs]
  winnerIndex_def [handler_defs]

section \<open>Lemmas: the wheel\<close>

lemma set_normal_wheel [inv_simps]:
  "set (normal_wheel g c) = set (participants g) - {c} - set (claimedGifts g)"
  by (auto simp: normal_wheel_def)

lemma set_swap_wheel [inv_simps]: "set (swap_wheel g c) = set (participants g) - {c}"
  by (auto simp: swap_wheel_def)

lemma wheelNames_normal [simp]:
  "normal_wheel g c \<noteq> [] \<Longrightarrow> wheelNames g c = (normal_wheel g c, False)"
  by (simp add: wheelNames_def)

lemma wheelNames_swap [simp]:
  "normal_wheel g c = [] \<Longrightarrow> wheelNames g c = (swap_wheel g c, True)"
  by (simp add: wheelNames_def)

lemma wheelNames_subset: "set (fst (wheelNames g c)) \<subseteq> set (participants g) - {c}"
  by (auto simp: wheelNames_def inv_simps)

lemma wheelNames_nonempty:
  "x \<in> set (participants g) \<Longrightarrow> x \<noteq> c \<Longrightarrow> fst (wheelNames g c) \<noteq> []"
  by (auto simp: wheelNames_def swap_wheel_def filter_empty_iff)

text \<open>The wheel is empty only when no participant other than the spinner exists.\<close>

lemma wheelNames_empty_iff:
  "(fst (wheelNames g c) = []) = (set (participants g) \<subseteq> {c})"
  by (auto simp: wheelNames_def normal_wheel_def swap_wheel_def filter_empty_iff)

lemma winnerIndex_less: "w \<noteq> [] \<Longrightarrow> winnerIndex r w < length w"
  by (simp add: winnerIndex_def)

lemma winnerIndex_every_slice: "i < length w \<Longrightarrow> winnerIndex i w = i"
  by (simp add: winnerIndex_def)

lemma drawWheel_matches_spin:
  "currentPlayer g = Some c \<Longrightarrow> fst (wheelNames g c) \<noteq> [] \<Longrightarrow>
   drawWheel_names g = fst (wheelNames g c)"
  by (auto simp: drawWheel_names_def wheelNames_def swap_wheel_def)

section \<open>Lemmas: the swap\<close>

lemma map_player_set_first_gift [simp]: "map player (set_first_gift v x as) = map player as"
  by (induction as) auto

lemma set_first_gift_absent: "v \<notin> set (map player as) \<Longrightarrow> set_first_gift v x as = as"
  by (induction as) auto

lemma assign_map_set_first_gift:
  "assign_map (set_first_gift v x as) =
     (if v \<in> set (map player as) then (assign_map as)(v \<mapsto> x) else assign_map as)"
  by (induction as) (auto simp: assign_map_def fun_eq_iff)

lemma mset_gifts_set_first_gift:
  "find (\<lambda>a. player a = v) as = Some va \<Longrightarrow>
   mset (map gift (set_first_gift v x as)) + {#gift va#} = mset (map gift as) + {#x#}"
  by (induction as) (auto split: if_splits)

lemma find_player_None: "(find (\<lambda>a. player a = v) as = None) = (v \<notin> set (map player as))"
  by (auto simp: find_None_iff)

lemma find_player_Some: "find (\<lambda>a. player a = v) as = Some va \<Longrightarrow> va \<in> set as \<and> player va = v"
  by (auto simp: find_Some_iff)

lemma assign_map_snoc_fresh:
  "c \<notin> set (map player as) \<Longrightarrow>
   assign_map (as @ [\<lparr>player = c, gift = g\<rparr>]) = (assign_map as)(c \<mapsto> g)"
  by (induction as) (auto simp: assign_map_def fun_eq_iff)

lemma assign_map_find:
  "find (\<lambda>a. player a = v) as = Some va \<Longrightarrow> assign_map as v = Some (gift va)"
  by (induction as) (auto simp: assign_map_def split: if_splits)

section \<open>Lemmas: resolving a spin\<close>

lemma handleSpinComplete_normal:
  assumes "currentPlayer g = Some c" and "normal_wheel g c \<noteq> []"
  shows "handleSpinComplete r g =
    (let w = normal_wheel g c; winner = w ! winnerIndex r w
     in Some (record_result False c winner
       (g\<lparr>currentPlayer := next_player (winner_warnings g False winner) winner\<rparr>)))"
  using assms by (simp add: handleSpinComplete_def Let_def)

lemma handleSpinComplete_swap:
  assumes "currentPlayer g = Some c" and "normal_wheel g c = []" and "swap_wheel g c \<noteq> []"
  shows "handleSpinComplete r g =
    (let w = swap_wheel g c; victim = w ! winnerIndex r w;
         sg = swap_gifts c victim (giftAssignments g)
     in Some (record_result True c (snd sg)
               (g\<lparr>currentPlayer := Some (snd sg), giftAssignments := fst sg\<rparr>)))"
  using assms by (simp add: handleSpinComplete_def Let_def next_player_def winner_warnings_def
      split: prod.splits)

lemma handleSpinComplete_None_iff:
  "(handleSpinComplete r g = None) =
   (case currentPlayer g of None \<Rightarrow> True | Some c \<Rightarrow> fst (wheelNames g c) = [])"
  by (auto simp: handleSpinComplete_def Let_def split: option.splits prod.splits)

lemma handleSpinComplete_Some_cases:
  assumes "handleSpinComplete r g = Some g'"
  obtains c where "currentPlayer g = Some c" and "fst (wheelNames g c) \<noteq> []"
  using assms handleSpinComplete_None_iff [of r g] that by (auto split: option.splits)

lemma swap_gifts_found:
  "find (\<lambda>a. player a = v) as = Some va \<Longrightarrow>
   swap_gifts c v as = (set_first_gift v c as, gift va)"
  by (simp add: swap_gifts_def)

lemma swap_gifts_missing:
  "v \<notin> set (map player as) \<Longrightarrow> swap_gifts c v as = (as, v)"
proof -
  assume "v \<notin> set (map player as)"
  then have "find (\<lambda>a. player a = v) as = None" by (simp add: find_player_None)
  then show ?thesis by (simp add: swap_gifts_def)
qed

lemma map_player_swap_gifts [simp]: "map player (fst (swap_gifts c v as)) = map player as"
  by (simp add: swap_gifts_def split: option.splits)

lemma record_result_log [simp]:
  "giftAssignments (record_result sw c go g) = giftAssignments g @ [\<lparr>player = c, gift = go\<rparr>]"
  by (simp add: record_result_def Let_def)

lemma record_result_played [simp]:
  "playedParticipants (record_result sw c go g) = push_new c (playedParticipants g)"
  by (simp add: record_result_def Let_def)

lemma record_result_claimed [simp]:
  "claimedGifts (record_result sw c go g) =
   (if sw then push_new c (claimedGifts g) else push_new go (claimedGifts g))"
  by (simp add: record_result_def Let_def)

lemma record_result_participants [simp]:
  "participants (record_result sw c go g) = participants g"
  by (simp add: record_result_def Let_def)

lemma record_result_current [simp]:
  "currentPlayer (record_result sw c go g) = currentPlayer g"
  by (simp add: record_result_def Let_def)

lemma record_result_available [simp]:
  "availableParticipants (record_result sw c go g) =
   filter (\<lambda>p. p \<notin> set (push_new c (playedParticipants g))) (participants g)"
  by (simp add: record_result_def Let_def)

lemma handleSpinComplete_participants:
  "handleSpinComplete r g = Some g' \<Longrightarrow> participants g' = participants g"
  by (auto simp: handleSpinComplete_def Let_def split: option.splits prod.splits if_splits)


lemma handleSpinComplete_played:
  "handleSpinComplete r g = Some g' \<Longrightarrow> currentPlayer g = Some c \<Longrightarrow>
   playedParticipants g' = push_new c (playedParticipants g)"
  by (auto simp: handleSpinComplete_def Let_def split: option.splits prod.splits if_splits)

lemma winner_in_wheel: "w \<noteq> [] \<Longrightarrow> w ! winnerIndex r w \<in> set w"
  by (simp add: winnerIndex_def)

section \<open>Properties of one spin\<close>

text \<open>
  C25: A spin in normal mode gives the spinner the gift of the drawn participant, who
  is never the spinner and whose gift was unclaimed (so the defensive
  already-claimed check of the code is dead); the drawn participant spins next
  unless they have played already, in which case a new player must be chosen.
\<close>

theorem normal_spin_result:
  assumes "currentPlayer g = Some c" and "normal_wheel g c \<noteq> []"
    and "winner = normal_wheel g c ! winnerIndex r (normal_wheel g c)"
  shows "\<exists>g'. handleSpinComplete r g = Some g'
    \<and> winner \<noteq> c \<and> winner \<notin> set (claimedGifts g)
    \<and> giftAssignments g' = giftAssignments g @ [\<lparr>player = c, gift = winner\<rparr>]
    \<and> currentPlayer g' = (if winner \<in> set (playedParticipants g) then None else Some winner)
    \<and> playedParticipants g' = push_new c (playedParticipants g)
    \<and> claimedGifts g' = claimedGifts g @ [winner]"
proof -
  from assms(2,3) have "winner \<in> set (normal_wheel g c)" by (simp add: winner_in_wheel)
  then have w: "winner \<noteq> c" "winner \<notin> set (claimedGifts g)" by (auto simp: inv_simps)
  with assms show ?thesis
    by (simp add: handleSpinComplete_normal Let_def next_player_def winner_warnings_def)
qed

theorem normal_spin_result_witness:
  "\<exists>g'. handleSpinComplete 1 (empty_game\<lparr>participants := [''A'', ''B'', ''C''],
          currentPlayer := Some ''A''\<rparr>) = Some g'
     \<and> ''C'' \<noteq> ''A'' \<and> ''C'' \<notin> set []
     \<and> giftAssignments g' = [\<lparr>player = ''A'', gift = ''C''\<rparr>]
     \<and> currentPlayer g' = Some ''C''
     \<and> playedParticipants g' = push_new ''A'' [] \<and> claimedGifts g' = [''C'']"
proof -
  let ?g = "empty_game\<lparr>participants := [''A'', ''B'', ''C''], currentPlayer := Some ''A''\<rparr>"
  have cur: "currentPlayer ?g = Some ''A''" by (simp add: empty_game_def)
  have nw: "normal_wheel ?g ''A'' = [''B'', ''C'']" by (simp add: empty_game_def normal_wheel_def)
  have win: "''C'' = normal_wheel ?g ''A'' ! winnerIndex 1 (normal_wheel ?g ''A'')"
    by (simp add: nw winnerIndex_def)
  show ?thesis
    using normal_spin_result [OF cur _ win] nw by (simp add: empty_game_def)
qed

text \<open>
  C23: Swap correctness. In swap mode, when the drawn victim already holds an entry
  with gift \<open>G\<close>, the victim's entry afterwards holds the spinner, the spinner's new
  entry holds \<open>G\<close>, and the multiset of gifts in the log grows by exactly the
  spinner's own gift, so gifts stay one per owner if they were before.
\<close>

theorem swap_correct:
  assumes "currentPlayer g = Some c" and "normal_wheel g c = []" and "swap_wheel g c \<noteq> []"
    and "v = swap_wheel g c ! winnerIndex r (swap_wheel g c)"
    and "find (\<lambda>a. player a = v) (giftAssignments g) = Some va"
    and "c \<notin> set (map player (giftAssignments g))"
  shows "\<exists>g'. handleSpinComplete r g = Some g'
    \<and> assign_map (giftAssignments g') v = Some c
    \<and> assign_map (giftAssignments g') c = Some (gift va)
    \<and> mset (map gift (giftAssignments g')) = mset (map gift (giftAssignments g)) + {#c#}"
proof -
  let ?as = "giftAssignments g"
  from assms(3,4) have "v \<in> set (swap_wheel g c)" by (simp add: winner_in_wheel)
  then have vc: "v \<noteq> c" by (simp add: inv_simps)
  from assms(5) have vin: "v \<in> set (map player ?as)" by (auto dest: find_player_Some)
  have sg: "swap_gifts c v ?as = (set_first_gift v c ?as, gift va)"
    using assms(5) by (rule swap_gifts_found)
  have log: "assign_map (set_first_gift v c ?as @ [\<lparr>player = c, gift = gift va\<rparr>]) =
      ((assign_map ?as)(v \<mapsto> c))(c \<mapsto> gift va)"
    using assms(6) vin by (simp add: assign_map_snoc_fresh assign_map_set_first_gift)
  have ms: "mset (map gift (set_first_gift v c ?as)) + {#gift va#} = mset (map gift ?as) + {#c#}"
    using assms(5) by (rule mset_gifts_set_first_gift)
  show ?thesis
    using assms(1-4) sg log ms vc by (simp add: handleSpinComplete_swap Let_def add.commute)
qed

theorem swap_correct_witness:
  "\<exists>g'. handleSpinComplete 0 (empty_game\<lparr>participants := [''A'', ''B'', ''C''],
          playedParticipants := [''A'', ''B''], claimedGifts := [''B'', ''A''],
          currentPlayer := Some ''C'',
          giftAssignments := [\<lparr>player = ''A'', gift = ''B''\<rparr>, \<lparr>player = ''B'', gift = ''A''\<rparr>]\<rparr>)
        = Some g'
     \<and> assign_map (giftAssignments g') ''A'' = Some ''C''
     \<and> assign_map (giftAssignments g') ''C'' = Some ''B''
     \<and> mset (map gift (giftAssignments g')) = mset [''B'', ''A''] + {#''C''#}"
proof -
  let ?as = "[\<lparr>player = ''A'', gift = ''B''\<rparr>, \<lparr>player = ''B'', gift = ''A''\<rparr>]"
  let ?g = "empty_game\<lparr>participants := [''A'', ''B'', ''C''],
          playedParticipants := [''A'', ''B''], claimedGifts := [''B'', ''A''],
          currentPlayer := Some ''C'', giftAssignments := ?as\<rparr>"
  have cur: "currentPlayer ?g = Some ''C''" by (simp add: empty_game_def)
  have nw: "normal_wheel ?g ''C'' = []" by (simp add: empty_game_def normal_wheel_def)
  have sw: "swap_wheel ?g ''C'' = [''A'', ''B'']" by (simp add: empty_game_def swap_wheel_def)
  have v: "''A'' = swap_wheel ?g ''C'' ! winnerIndex 0 (swap_wheel ?g ''C'')"
    by (simp add: sw winnerIndex_def)
  have f: "find (\<lambda>a. player a = ''A'') (giftAssignments ?g) = Some \<lparr>player = ''A'', gift = ''B''\<rparr>"
    by (simp add: empty_game_def)
  have c: "''C'' \<notin> set (map player (giftAssignments ?g))" by (simp add: empty_game_def)
  show ?thesis
    using swap_correct [OF cur nw _ v f c] sw by (simp add: empty_game_def)
qed


lemma assign_map_absent: "v \<notin> set (map player as) \<Longrightarrow> assign_map as v = None"
  by (induction as) (auto simp: assign_map_def)

lemma swap_gifts_refines:
  assumes "c \<notin> set (map player as)"
  shows "assign_map (fst (swap_gifts c v as) @ [\<lparr>player = c, gift = snd (swap_gifts c v as)\<rparr>]) =
         abs_swap (assign_map as) c v"
proof (cases "find (\<lambda>a. player a = v) as")
  case None
  then have "v \<notin> set (map player as)" by (simp add: find_player_None)
  with assms show ?thesis
    by (simp add: swap_gifts_missing assign_map_snoc_fresh assign_map_absent abs_swap_def)
next
  case (Some va)
  then have "v \<in> set (map player as)" by (auto dest: find_player_Some)
  with Some assms show ?thesis
    by (simp add: swap_gifts_found assign_map_snoc_fresh assign_map_set_first_gift
        assign_map_find abs_swap_def)
qed

section \<open>Refinement of the abstract spin\<close>

text \<open>
  C24: Read as a map from player to gift owner, the log after a spin is the abstract
  operation applied to the log before it: \<open>abs_give\<close> in normal mode and
  \<open>abs_swap\<close> in swap mode, with the drawn name, provided the spinner has no entry yet.
\<close>

theorem spin_refines:
  assumes "handleSpinComplete r g = Some g'" and "currentPlayer g = Some c"
    and "c \<notin> set (map player (giftAssignments g))"
  shows "assign_map (giftAssignments g') =
    (case wheelNames g c of (w, isSwapMode) \<Rightarrow>
       if isSwapMode then abs_swap (assign_map (giftAssignments g)) c (w ! winnerIndex r w)
       else abs_give (assign_map (giftAssignments g)) c (w ! winnerIndex r w))"
proof (cases "normal_wheel g c = []")
  case False
  with assms show ?thesis
    by (auto simp: handleSpinComplete_normal Let_def assign_map_snoc_fresh abs_give_def)
next
  case True
  from assms(1) obtain c' where "currentPlayer g = Some c'" and "fst (wheelNames g c') \<noteq> []"
    by (rule handleSpinComplete_Some_cases)
  with assms(2) True have sw: "swap_wheel g c \<noteq> []" by simp
  let ?v = "swap_wheel g c ! winnerIndex r (swap_wheel g c)"
  let ?sg = "swap_gifts c ?v (giftAssignments g)"
  from assms(1,2) True sw have "g' = record_result True c (snd ?sg)
      (g\<lparr>currentPlayer := Some (snd ?sg), giftAssignments := fst ?sg\<rparr>)"
    by (simp add: handleSpinComplete_swap Let_def)
  with True sw swap_gifts_refines [OF assms(3), of ?v] show ?thesis by simp
qed

theorem spin_refines_witness:
  "assign_map (giftAssignments (the (handleSpinComplete 0
      (empty_game\<lparr>participants := [''A'', ''B'', ''C''],
          playedParticipants := [''A'', ''B''], claimedGifts := [''B'', ''A''],
          currentPlayer := Some ''C'',
          giftAssignments := [\<lparr>player = ''A'', gift = ''B''\<rparr>, \<lparr>player = ''B'', gift = ''A''\<rparr>]\<rparr>))))
   = abs_swap (assign_map [\<lparr>player = ''A'', gift = ''B''\<rparr>, \<lparr>player = ''B'', gift = ''A''\<rparr>])
       ''C'' ''A''"
proof -
  let ?as = "[\<lparr>player = ''A'', gift = ''B''\<rparr>, \<lparr>player = ''B'', gift = ''A''\<rparr>]"
  let ?g = "empty_game\<lparr>participants := [''A'', ''B'', ''C''],
          playedParticipants := [''A'', ''B''], claimedGifts := [''B'', ''A''],
          currentPlayer := Some ''C'', giftAssignments := ?as\<rparr>"
  have h: "handleSpinComplete 0 ?g = Some (the (handleSpinComplete 0 ?g))"
    by (simp add: empty_game_def handleSpinComplete_def handler_defs Let_def)
  have cur: "currentPlayer ?g = Some ''C''" by (simp add: empty_game_def)
  have c: "''C'' \<notin> set (map player (giftAssignments ?g))" by (simp add: empty_game_def)
  have wn: "wheelNames ?g ''C'' = ([''A'', ''B''], True)"
    by (simp add: empty_game_def handler_defs)
  show ?thesis
    using spin_refines [OF h cur c] wn by (simp add: empty_game_def winnerIndex_def)
qed

text \<open>
  C26: The names \<^verbatim>\<open>drawWheel\<close> paints while a player is set are exactly the names
  \<^verbatim>\<open>handleSpinComplete\<close> resolves the spin against, whenever the spin can start: the
  slice under the pointer is the name the result names.
\<close>

theorem drawWheel_equals_spin_wheel:
  assumes "currentPlayer g = Some c" and "fst (wheelNames g c) \<noteq> []"
  shows "drawWheel_names g = fst (wheelNames g c)"
  using assms by (auto simp: drawWheel_names_def wheelNames_def swap_wheel_def)

theorem drawWheel_equals_spin_wheel_witness:
  "drawWheel_names (empty_game\<lparr>participants := [''A'', ''B''], claimedGifts := [''B''],
      currentPlayer := Some ''B''\<rparr>) = [''A'']"
proof -
  let ?g = "empty_game\<lparr>participants := [''A'', ''B''], claimedGifts := [''B''],
      currentPlayer := Some ''B''\<rparr>"
  have cur: "currentPlayer ?g = Some ''B''" by (simp add: empty_game_def)
  have wn: "wheelNames ?g ''B'' = ([''A''], False)" by (simp add: empty_game_def handler_defs)
  show ?thesis using drawWheel_equals_spin_wheel [OF cur] wn by simp
qed

text \<open>
  The index the code derives from the wheel angle always names a slice (no
  out-of-range read, so the spec's IndexOutOfRange cannot arise), and every slice
  can be the result.
\<close>

theorem winnerIndex_bounds:
  assumes "w \<noteq> []"
  shows "winnerIndex r w < length w \<and> (\<forall>i < length w. winnerIndex i w = i)"
  using assms by (simp add: winnerIndex_def)

theorem winnerIndex_bounds_witness:
  "winnerIndex 7 [''A'', ''B'', ''C''] < 3
   \<and> list_all (\<lambda>i. winnerIndex i [''A'', ''B'', ''C''] = i) [0, 1, 2]"
  using winnerIndex_bounds [of "[''A'', ''B'', ''C'']" 7] by simp


lemma handleSpinComplete_grows:
  "handleSpinComplete r g = Some g' \<Longrightarrow>
   prefix (playedParticipants g) (playedParticipants g') \<and> prefix (claimedGifts g) (claimedGifts g')"
  by (auto simp: handleSpinComplete_def Let_def push_new_prefix split: option.splits prod.splits if_splits)

text \<open>
  C27: After a swap the code does not clear the current player: both warnings are
  forced to false, so the gift owner the spinner received (the victim's old gift)
  becomes the current player, where the spec prescribes a manual reselection.
\<close>

theorem swap_keeps_current_player:
  assumes "currentPlayer g = Some c" and "normal_wheel g c = []" and "swap_wheel g c \<noteq> []"
    and "handleSpinComplete r g = Some g'"
  shows "currentPlayer g' =
    Some (snd (swap_gifts c (swap_wheel g c ! winnerIndex r (swap_wheel g c)) (giftAssignments g)))"
  using assms by (auto simp: handleSpinComplete_swap Let_def)

theorem swap_keeps_current_player_witness:
  "currentPlayer (the (handleSpinComplete 0
      (empty_game\<lparr>participants := [''A'', ''B'', ''C''],
          playedParticipants := [''A'', ''B''], claimedGifts := [''B'', ''A''],
          currentPlayer := Some ''C'',
          giftAssignments := [\<lparr>player = ''A'', gift = ''B''\<rparr>, \<lparr>player = ''B'', gift = ''A''\<rparr>]\<rparr>)))
   = Some ''B''"
proof -
  let ?as = "[\<lparr>player = ''A'', gift = ''B''\<rparr>, \<lparr>player = ''B'', gift = ''A''\<rparr>]"
  let ?g = "empty_game\<lparr>participants := [''A'', ''B'', ''C''],
          playedParticipants := [''A'', ''B''], claimedGifts := [''B'', ''A''],
          currentPlayer := Some ''C'', giftAssignments := ?as\<rparr>"
  have h: "handleSpinComplete 0 ?g = Some (the (handleSpinComplete 0 ?g))"
    by (simp add: empty_game_def handleSpinComplete_def handler_defs Let_def)
  have cur: "currentPlayer ?g = Some ''C''" by (simp add: empty_game_def)
  have nw: "normal_wheel ?g ''C'' = []" by (simp add: empty_game_def normal_wheel_def)
  have sw: "swap_wheel ?g ''C'' = [''A'', ''B'']" by (simp add: empty_game_def swap_wheel_def)
  show ?thesis
    using swap_keeps_current_player [OF cur nw _ h] sw
    by (simp add: empty_game_def winnerIndex_def swap_gifts_def)
qed

end
