(* ===== verification/Roster.thy ===== *)
theory Roster
  imports Prelude
begin

text \<open>
  The roster input of \<^verbatim>\<open>src/gift-game.js\<close>: the name text area is split at newlines,
  every line trimmed and empty lines dropped (\<^verbatim>\<open>updateParticipants\<close>, lines 103--107);
  the default roster is joined with newlines into the text area on load
  (\<^verbatim>\<open>loadParticipants\<close>). Strings are UTF-8 byte lists, and \<^verbatim>\<open>String.prototype.trim\<close>
  is modelled on the ASCII white space it removes (tab, line feed, vertical tab, form
  feed, carriage return, space); the non-ASCII white space it also removes (such as
  U+00A0 or U+FEFF) is not modelled. \<^verbatim>\<open>name.length > 0\<close> counts UTF-16 units, which
  is positive exactly when the byte string is not empty.
\<close>

definition nl :: char where
  "nl = CHR 0x0A"

definition is_js_space :: "char \<Rightarrow> bool" where
  "is_js_space ch = (ch \<in> set [CHR 0x09, CHR 0x0A, CHR 0x0B, CHR 0x0C, CHR 0x0D, CHR 0x20])"

definition js_trim :: "string \<Rightarrow> string" where
  "js_trim s = rev (dropWhile is_js_space (rev (dropWhile is_js_space s)))"

text \<open>\<^verbatim>\<open>s.split('\n')\<close>: always at least one piece, an empty one for the empty string.\<close>

fun split_nl :: "string \<Rightarrow> string list" where
  "split_nl [] = [[]]"
| "split_nl (ch # cs) =
     (let r = split_nl cs in if ch = nl then [] # r else (ch # hd r) # tl r)"

text \<open>\<^verbatim>\<open>xs.join('\n')\<close>.\<close>

fun join_nl :: "string list \<Rightarrow> string" where
  "join_nl [] = []"
| "join_nl [x] = x"
| "join_nl (x # y # xs) = x @ nl # join_nl (y # xs)"

definition parse_names :: "string \<Rightarrow> name list" where
  "parse_names txt = filter (\<lambda>n. n \<noteq> []) (map js_trim (split_nl txt))"

text \<open>A name as \<^verbatim>\<open>updateParticipants\<close> leaves it: not empty, trimmed, one line.\<close>

definition wf_name :: "name \<Rightarrow> bool" where
  "wf_name n = (n \<noteq> [] \<and> \<not> is_js_space (hd n) \<and> \<not> is_js_space (last n) \<and> nl \<notin> set n)"

text \<open>The Thai honorific in the default names, in UTF-8.\<close>

definition khun :: string where
  "khun = [CHR 0xE0, CHR 0xB8, CHR 0x84, CHR 0xE0, CHR 0xB8, CHR 0xB8, CHR 0xE0, CHR 0xB8, CHR 0x93]"

definition defaultParticipants :: "name list" where
  "defaultParticipants =
    [''1-'' @ khun @ '' A'', ''2-'' @ khun @ '' B'', ''3-'' @ khun @ '' C'',
     ''4-'' @ khun @ '' D'', ''5-'' @ khun @ '' E'', ''6-'' @ khun @ '' F'',
     ''7-'' @ khun @ '' G'', ''8-'' @ khun @ '' H'', ''9-'' @ khun @ '' I'',
     ''10-'' @ khun @ '' J'', ''11-'' @ khun @ '' K'', ''12-'' @ khun @ '' L'',
     ''13-'' @ khun @ '' M'', ''14-'' @ khun @ '' N'', ''15-'' @ khun @ '' O'',
     ''16-'' @ khun @ '' P'', ''17-'' @ khun @ '' Q'', ''18-'' @ khun @ '' R'',
     ''19-'' @ khun @ '' S'', ''20-'' @ khun @ '' T'', ''21-'' @ khun @ '' U'',
     ''22-'' @ khun @ '' V'', ''23-'' @ khun @ '' W'', ''24-'' @ khun @ '' X'',
     ''25-'' @ khun @ '' Y'', ''26-'' @ khun @ '' Z'']"

section \<open>Splitting and joining\<close>

lemma split_nl_not_Nil [simp]: "split_nl s \<noteq> []"
  by (induction s) (auto simp: Let_def)

lemma split_nl_no_nl: "w \<in> set (split_nl s) \<Longrightarrow> nl \<notin> set w"
proof (induction s arbitrary: w)
  case Nil
  then show ?case by simp
next
  case (Cons ch cs)
  obtain r rs where r: "split_nl cs = r # rs" by (cases "split_nl cs") auto
  show ?case
  proof (cases "ch = nl")
    case True
    with Cons r show ?thesis by auto
  next
    case False
    with Cons.prems r have "w = ch # r \<or> w \<in> set rs" by simp
    with False Cons.IH r show ?thesis by auto
  qed
qed

lemma split_nl_single: "nl \<notin> set x \<Longrightarrow> split_nl x = [x]"
  by (induction x) (auto simp: Let_def)

lemma split_nl_append_nl: "nl \<notin> set x \<Longrightarrow> split_nl (x @ nl # rest) = x # split_nl rest"
  by (induction x) (auto simp: Let_def)

lemma join_split_nl: "join_nl (split_nl s) = s"
proof (induction s)
  case Nil
  then show ?case by simp
next
  case (Cons ch cs)
  obtain r rs where r: "split_nl cs = r # rs" by (cases "split_nl cs") auto
  show ?case
  proof (cases rs)
    case Nil
    with Cons r show ?thesis by (auto simp: Let_def)
  next
    case (Cons r' rs')
    with Cons.IH r show ?thesis by (auto simp: Let_def)
  qed
qed

lemma split_join_nl: "(\<forall>w \<in> set ws. nl \<notin> set w) \<Longrightarrow> ws \<noteq> [] \<Longrightarrow> split_nl (join_nl ws) = ws"
  by (induction ws rule: join_nl.induct) (auto simp: split_nl_single split_nl_append_nl)

section \<open>Trimming\<close>

lemma set_dropWhile_subset: "set (dropWhile P xs) \<subseteq> set xs"
  by (auto dest: set_dropWhileD)

lemma set_js_trim: "set (js_trim s) \<subseteq> set s"
  using set_dropWhile_subset [of is_js_space "rev (dropWhile is_js_space s)"]
    set_dropWhile_subset [of is_js_space s]
  by (auto simp: js_trim_def)

lemma dropWhile_id: "xs = [] \<or> \<not> P (hd xs) \<Longrightarrow> dropWhile P xs = xs"
  by (cases xs) auto

lemma js_trim_wf: "wf_name n \<Longrightarrow> js_trim n = n"
proof -
  assume wf: "wf_name n"
  then have "dropWhile is_js_space n = n" by (simp add: wf_name_def dropWhile_id)
  moreover from wf have "dropWhile is_js_space (rev n) = rev n"
    by (simp add: wf_name_def dropWhile_id hd_rev)
  ultimately show ?thesis by (simp add: js_trim_def)
qed

lemma hd_dropWhile_not: "dropWhile P xs \<noteq> [] \<Longrightarrow> \<not> P (hd (dropWhile P xs))"
  by (induction xs) auto

lemma last_dropWhile: "dropWhile P xs \<noteq> [] \<Longrightarrow> last (dropWhile P xs) = last xs"
  by (induction xs) auto

lemma js_trim_ends:
  assumes "js_trim s \<noteq> []"
  shows "\<not> is_js_space (hd (js_trim s)) \<and> \<not> is_js_space (last (js_trim s))"
proof -
  let ?a = "dropWhile is_js_space s"
  let ?b = "dropWhile is_js_space (rev ?a)"
  have jt: "js_trim s = rev ?b" by (simp add: js_trim_def)
  with assms have b: "?b \<noteq> []" by simp
  then have last: "\<not> is_js_space (last (js_trim s))"
    by (simp add: jt last_rev hd_dropWhile_not)
  from b have a: "?a \<noteq> []" by (cases ?a) auto
  have "hd (js_trim s) = last ?b" using b by (simp add: jt hd_rev)
  also have "last ?b = last (rev ?a)"
    using b by (rule last_dropWhile)
  also have "\<dots> = hd ?a" using a by (simp add: last_rev)
  finally have "\<not> is_js_space (hd (js_trim s))" using a by (simp add: hd_dropWhile_not)
  with last show ?thesis by simp
qed

section \<open>Parsing the roster\<close>

lemma wf_parse_names: "n \<in> set (parse_names t) \<Longrightarrow> wf_name n"
proof -
  assume "n \<in> set (parse_names t)"
  then obtain w where w: "w \<in> set (split_nl t)" and n: "n = js_trim w" and ne: "n \<noteq> []"
    by (auto simp: parse_names_def)
  from w have "nl \<notin> set w" by (rule split_nl_no_nl)
  with n set_js_trim [of w] have "nl \<notin> set n" by auto
  with ne n js_trim_ends [of w] show ?thesis by (simp add: wf_name_def)
qed

lemma parse_join_names: "\<forall>n \<in> set ns. wf_name n \<Longrightarrow> parse_names (join_nl ns) = ns"
proof (cases "ns = []")
  case True
  then show ?thesis by (simp add: parse_names_def js_trim_def)
next
  case False
  assume wf: "\<forall>n \<in> set ns. wf_name n"
  then have "split_nl (join_nl ns) = ns"
    using False by (intro split_join_nl) (auto simp: wf_name_def)
  moreover from wf have "map js_trim ns = ns" by (induction ns) (auto simp: js_trim_wf)
  moreover from wf have "filter (\<lambda>n. n \<noteq> []) ns = ns" by (auto simp: wf_name_def)
  ultimately show ?thesis by (simp add: parse_names_def)
qed

text \<open>
  C35: A list of names survives being joined into the text area and read back by
  \<^verbatim>\<open>updateParticipants\<close> exactly when every name is well formed (non-empty, trimmed,
  on one line); in particular every name the parser produces is well formed.
\<close>

theorem roster_roundtrip: "(\<forall>n \<in> set ns. wf_name n) = (parse_names (join_nl ns) = ns)"
proof
  assume "\<forall>n \<in> set ns. wf_name n"
  then show "parse_names (join_nl ns) = ns" by (rule parse_join_names)
next
  assume "parse_names (join_nl ns) = ns"
  then show "\<forall>n \<in> set ns. wf_name n" using wf_parse_names [of _ "join_nl ns"] by metis
qed

theorem roster_roundtrip_witness:
  "list_all wf_name [''Ann'', ''Bo''] \<and> parse_names (join_nl [''Ann'', ''Bo'']) = [''Ann'', ''Bo'']
   \<and> \<not> list_all wf_name ['' Ann''] \<and> parse_names (join_nl ['' Ann'']) \<noteq> ['' Ann'']"
proof -
  have wf: "\<forall>n \<in> set [''Ann'', ''Bo'']. wf_name n"
    by (simp add: wf_name_def is_js_space_def nl_def)
  have bad: "\<not> (\<forall>n \<in> set ['' Ann'']. wf_name n)"
    by (simp add: wf_name_def is_js_space_def)
  show ?thesis
    using wf bad roster_roundtrip [of "[''Ann'', ''Bo'']"] roster_roundtrip [of "['' Ann'']"]
    by (simp only: list_all_iff) blast
qed

text \<open>
  Reading the text area is idempotent: writing the parsed roster back (one name
  per line) and reading it again gives the same roster.
\<close>

theorem parse_names_idempotent: "parse_names (join_nl (parse_names t)) = parse_names t"
  by (rule parse_join_names) (auto intro: wf_parse_names)

lemma wf_defaultParticipants: "\<forall>n \<in> set defaultParticipants. wf_name n"
  by (simp add: defaultParticipants_def khun_def wf_name_def is_js_space_def nl_def)

text \<open>
  On page load the text area holds the default roster joined by newlines, and
  \<^verbatim>\<open>updateParticipants\<close> reads back exactly the 26 default names, all distinct.
\<close>

theorem load_defaults:
  "parse_names (join_nl defaultParticipants) = defaultParticipants
   \<and> distinct defaultParticipants \<and> length defaultParticipants = 26"
proof -
  have "distinct defaultParticipants"
    by (simp add: defaultParticipants_def khun_def)
  moreover have "length defaultParticipants = 26"
    by (simp add: defaultParticipants_def)
  ultimately show ?thesis using parse_join_names [OF wf_defaultParticipants] by simp
qed

end
