(* ===== verification/Results.thy ===== *)
theory Results
  imports Engine "HOL-Library.Sublist"
begin

text \<open>
  The results list beside the wheel (\<^verbatim>\<open>addResultToList\<close>, \<^verbatim>\<open>updateResultInList\<close>):
  one list item per spin, most recent first, showing the player, the gift owner, an
  optional note and, after a swap, the indicator '(swapped)'. The list is DOM state
  that \<^verbatim>\<open>handleSpinComplete\<close> changes beside the module state; \<open>handleSpinComplete_results\<close>
  is that part of the handler. \<^verbatim>\<open>updateResultInList\<close> finds the victim's item by the
  text test \<^verbatim>\<open>li.innerHTML.includes(`>${player}<`)\<close>: for a name without \<open><\<close>, \<open>>\<close>
  or \<open>&\<close> this holds exactly when one of the item's text nodes is the name
  (\<open>li_texts\<close>; the blank text nodes between the tags never equal a trimmed name and
  are left out). The gift owner's text node matches as well as the player's.
\<close>

section \<open>List items\<close>

record row =
  rowPlayer :: name
  rowGift :: name
  rowNote :: "string option"
  rowSwapped :: bool

text \<open>The fixed texts of an item: 'player', 'got the gift of', '(swapped)', in UTF-8.\<close>

definition labelPlayer :: string where
  "labelPlayer = [CHR 0xE0, CHR 0xB8, CHR 0x9C, CHR 0xE0, CHR 0xB8, CHR 0xB9, CHR 0xE0, CHR 0xB9,
     CHR 0x89, CHR 0xE0, CHR 0xB9, CHR 0x80, CHR 0xE0, CHR 0xB8, CHR 0xA5, CHR 0xE0,
     CHR 0xB9, CHR 0x88, CHR 0xE0, CHR 0xB8, CHR 0x99]"

definition labelGift :: string where
  "labelGift = [CHR 0xE0, CHR 0xB8, CHR 0x88, CHR 0xE0, CHR 0xB8, CHR 0xB1, CHR 0xE0, CHR 0xB8,
     CHR 0x9A, CHR 0xE0, CHR 0xB9, CHR 0x84, CHR 0xE0, CHR 0xB8, CHR 0x94, CHR 0xE0,
     CHR 0xB9, CHR 0x89, CHR 0xE0, CHR 0xB8, CHR 0x82, CHR 0xE0, CHR 0xB8, CHR 0xAD,
     CHR 0xE0, CHR 0xB8, CHR 0x87, CHR 0xE0, CHR 0xB8, CHR 0x82, CHR 0xE0, CHR 0xB8,
     CHR 0xAD, CHR 0xE0, CHR 0xB8, CHR 0x87]"

definition swappedLabel :: string where
  "swappedLabel = [CHR 0x28, CHR 0xE0, CHR 0xB9, CHR 0x82, CHR 0xE0, CHR 0xB8, CHR 0x94, CHR 0xE0,
     CHR 0xB8, CHR 0x99, CHR 0xE0, CHR 0xB8, CHR 0xAA, CHR 0xE0, CHR 0xB8, CHR 0xA5,
     CHR 0xE0, CHR 0xB8, CHR 0xB1, CHR 0xE0, CHR 0xB8, CHR 0x9A, CHR 0x29]"

definition redClass :: string where
  "redClass = ''text-red-500''"

text \<open>The note of a swap, \<^verbatim>\<open>specialMessage\<close>: '(swapped gifts with \<open>v\<close>!)'.\<close>

definition swapMessage :: "name \<Rightarrow> string" where
  "swapMessage v = [CHR 0x28, CHR 0xE0, CHR 0xB8, CHR 0xAA, CHR 0xE0, CHR 0xB8, CHR 0xA5, CHR 0xE0,
     CHR 0xB8, CHR 0xB1, CHR 0xE0, CHR 0xB8, CHR 0x9A, CHR 0xE0, CHR 0xB8, CHR 0x82,
     CHR 0xE0, CHR 0xB8, CHR 0xAD, CHR 0xE0, CHR 0xB8, CHR 0x87, CHR 0xE0, CHR 0xB8,
     CHR 0xA3, CHR 0xE0, CHR 0xB8, CHR 0xB2, CHR 0xE0, CHR 0xB8, CHR 0x87, CHR 0xE0,
     CHR 0xB8, CHR 0xA7, CHR 0xE0, CHR 0xB8, CHR 0xB1, CHR 0xE0, CHR 0xB8, CHR 0xA5,
     CHR 0xE0, CHR 0xB8, CHR 0x81, CHR 0xE0, CHR 0xB8, CHR 0xB1, CHR 0xE0, CHR 0xB8,
     CHR 0x9A, CHR 0x20] @ v @ ''!)''"

definition li_texts :: "row \<Rightarrow> string list" where
  "li_texts r =
     [labelPlayer, rowPlayer r, labelGift, rowGift r]
     @ (case rowNote r of None \<Rightarrow> [] | Some n \<Rightarrow> [n])
     @ (if rowSwapped r then [swappedLabel] else [])"

definition li_matches :: "name \<Rightarrow> row \<Rightarrow> bool" where
  "li_matches v r = (v \<in> set (li_texts r))"

text \<open>
  \<^verbatim>\<open>li.innerHTML.includes('text-red-500')\<close>: the class of the note span and of the
  swap indicator, or the text itself.
\<close>

definition has_red :: "row \<Rightarrow> bool" where
  "has_red r = (rowNote r \<noteq> None \<or> rowSwapped r \<or> list_ex (sublist redClass) (li_texts r))"

definition addResultToList :: "name \<Rightarrow> name \<Rightarrow> string option \<Rightarrow> row list \<Rightarrow> row list" where
  "addResultToList p g note rows =
     (if p = [] \<or> g = [] then rows
      else \<lparr>rowPlayer = p, rowGift = g, rowNote = (if note = Some [] then None else note),
            rowSwapped = False\<rparr> # rows)"

fun updateResultInList :: "name \<Rightarrow> name \<Rightarrow> row list \<Rightarrow> row list" where
  "updateResultInList v ng [] = []"
| "updateResultInList v ng (r # rs) =
     (if li_matches v r
      then (let r' = r\<lparr>rowGift := ng\<rparr> in if has_red r' then r' else r'\<lparr>rowSwapped := True\<rparr>) # rs
      else r # updateResultInList v ng rs)"

text \<open>
  The results-list part of \<^verbatim>\<open>handleSpinComplete\<close>, from the same values the handler
  computes: the victim's item is updated when a swap finds the victim's entry, and the
  new item is added with the swap note. On the two branches \<^verbatim>\<open>startSpin\<close> excludes
  (no current player, empty wheel) the list is left as it is.
\<close>

definition handleSpinComplete_results :: "nat \<Rightarrow> game \<Rightarrow> row list \<Rightarrow> row list" where
  "handleSpinComplete_results r g rows =
     (case currentPlayer g of
        None \<Rightarrow> rows
      | Some playerWhoSpun \<Rightarrow>
          (case wheelNames g playerWhoSpun of (w, isSwapMode) \<Rightarrow>
             if w = [] then rows
             else
               (let victim = w ! winnerIndex r w
                in case (if isSwapMode then find (\<lambda>a. player a = victim) (giftAssignments g) else None) of
                     Some va \<Rightarrow> addResultToList playerWhoSpun (gift va) (Some (swapMessage victim))
                                  (updateResultInList victim playerWhoSpun rows)
                   | None \<Rightarrow> addResultToList playerWhoSpun victim None rows)))"

text \<open>What an item shows as a pair, and the log read the same way.\<close>

definition row_pair :: "row \<Rightarrow> name \<times> name" where
  "row_pair r = (rowPlayer r, rowGift r)"

definition log_pairs :: "assignment list \<Rightarrow> (name \<times> name) list" where
  "log_pairs as = rev (map (\<lambda>a. (player a, gift a)) as)"

text \<open>An item as \<^verbatim>\<open>addResultToList\<close> writes it for a normal spin: no note, no indicator.\<close>

definition row_plain :: "row \<Rightarrow> bool" where
  "row_plain r = (rowNote r = None \<and> \<not> rowSwapped r)"

section \<open>Lemmas\<close>

lemma results_normal:
  assumes "currentPlayer g = Some c" and "normal_wheel g c \<noteq> []"
  shows "handleSpinComplete_results r g rows =
    addResultToList c (normal_wheel g c ! winnerIndex r (normal_wheel g c)) None rows"
  using assms by (simp add: handleSpinComplete_results_def Let_def)

lemma map_row_pair_add [simp]:
  "p \<noteq> [] \<Longrightarrow> g \<noteq> [] \<Longrightarrow> map row_pair (addResultToList p g n rows) = (p, g) # map row_pair rows"
  by (simp add: addResultToList_def row_pair_def)

lemma log_pairs_snoc [simp]:
  "log_pairs (as @ [\<lparr>player = p, gift = g\<rparr>]) = (p, g) # log_pairs as"
  by (simp add: log_pairs_def)

lemma results_track_normal:
  assumes "currentPlayer g = Some c" and "normal_wheel g c \<noteq> []"
    and "handleSpinComplete r g = Some g'" and "\<forall>n \<in> set (participants g). n \<noteq> []"
    and "c \<in> set (participants g)"
    and "map row_pair rows = log_pairs (giftAssignments g)"
  shows "map row_pair (handleSpinComplete_results r g rows) = log_pairs (giftAssignments g')"
proof -
  let ?w = "normal_wheel g c ! winnerIndex r (normal_wheel g c)"
  have "?w \<in> set (normal_wheel g c)" using assms(2) by (rule winner_in_wheel)
  then have "?w \<in> set (participants g)" by (simp add: normal_wheel_def)
  with assms(4,5) have ne: "?w \<noteq> []" "c \<noteq> []" by auto
  from assms(3) handleSpinComplete_normal [OF assms(1,2), of r]
  have "giftAssignments g' = giftAssignments g @ [\<lparr>player = c, gift = ?w\<rparr>]" by (auto simp: Let_def)
  with ne assms(6) show ?thesis by (simp add: results_normal [OF assms(1,2)])
qed

lemma row_plain_add [simp]:
  "list_all row_plain (addResultToList p g None rows) = list_all row_plain rows"
  by (simp add: addResultToList_def row_plain_def)

lemma li_matches_plain:
  "row_plain r \<Longrightarrow> v \<noteq> labelPlayer \<Longrightarrow> v \<noteq> labelGift \<Longrightarrow>
   li_matches v r = (v = rowPlayer r \<or> v = rowGift r)"
  by (auto simp: li_matches_def li_texts_def row_plain_def)

lemma row_pair_update [simp]:
  "row_pair (r\<lparr>rowGift := x\<rparr>) = (rowPlayer r, x)" "row_pair (r\<lparr>rowSwapped := b\<rparr>) = row_pair r"
  by (simp_all add: row_pair_def)

text \<open>The log side of a swap: only the victim's entry changes.\<close>

definition give_to :: "name \<Rightarrow> name \<Rightarrow> name \<times> name \<Rightarrow> name \<times> name" where
  "give_to v c pg = (if fst pg = v then (v, c) else pg)"

lemma give_to_same [simp]: "give_to v c (v, g) = (v, c)"
  by (simp add: give_to_def)

lemma map_give_to_id: "v \<notin> set (map fst ps) \<Longrightarrow> map (give_to v c) ps = ps"
  by (induction ps) (auto simp: give_to_def)

lemma log_pairs_set_first_gift:
  "distinct (map player as) \<Longrightarrow>
   log_pairs (set_first_gift v c as) = map (give_to v c) (log_pairs as)"
proof (induction as)
  case (Cons a as)
  show ?case
  proof (cases "player a = v")
    case True
    with Cons.prems have "v \<notin> set (map fst (rev (map (\<lambda>a. (player a, gift a)) as)))" by auto
    then have "map (give_to v c) (rev (map (\<lambda>a. (player a, gift a)) as)) =
        rev (map (\<lambda>a. (player a, gift a)) as)" by (rule map_give_to_id)
    with True show ?thesis by (simp add: log_pairs_def)
  next
    case False
    with Cons show ?thesis by (simp add: log_pairs_def give_to_def)
  qed
qed (simp add: log_pairs_def)

text \<open>
  The list side: \<^verbatim>\<open>updateResultInList\<close> gives the victim the spinner exactly when the
  first item mentioning the victim is the victim's own.
\<close>

lemma update_rows_iff:
  assumes "list_all row_plain rows" and "distinct (map rowPlayer rows)"
    and "v \<in> set (map rowPlayer rows)" and "v \<noteq> labelPlayer" and "v \<noteq> labelGift" and "c \<noteq> v"
  shows "(map row_pair (updateResultInList v c rows) = map (give_to v c) (map row_pair rows))
    = (map_option rowPlayer (find (li_matches v) rows) = Some v)"
  using assms
proof (induction rows)
  case (Cons r rs)
  from Cons.prems have m: "li_matches v r = (v = rowPlayer r \<or> v = rowGift r)"
    by (simp add: li_matches_plain)
  show ?case
  proof (cases "li_matches v r")
    case True
    show ?thesis
    proof (cases "rowPlayer r = v")
      case True
      with Cons.prems have "v \<notin> set (map fst (map row_pair rs))" by (auto simp: row_pair_def)
      then have "map (give_to v c) (map row_pair rs) = map row_pair rs" by (rule map_give_to_id)
      with True \<open>li_matches v r\<close> show ?thesis by (simp add: Let_def give_to_def row_pair_def)
    next
      case False
      with m \<open>li_matches v r\<close> have "rowGift r = v" by simp
      with False \<open>li_matches v r\<close> Cons.prems(6) show ?thesis
        by (simp add: Let_def give_to_def row_pair_def)
    qed
  next
    case False
    with m have "rowPlayer r \<noteq> v" by auto
    with False Cons.prems Cons.IH show ?thesis by (simp add: give_to_def row_pair_def)
  qed
qed simp

lemma swap_results_iff:
  assumes "currentPlayer g = Some c" and "normal_wheel g c = []"
    and "handleSpinComplete r g = Some g'"
    and "v = swap_wheel g c ! winnerIndex r (swap_wheel g c)"
    and "find (\<lambda>a. player a = v) (giftAssignments g) = Some va"
    and "c \<noteq> []" and "gift va \<noteq> []" and "c \<noteq> v" and "v \<noteq> labelPlayer" and "v \<noteq> labelGift"
    and "list_all row_plain rows" and "map row_pair rows = log_pairs (giftAssignments g)"
    and "distinct (map player (giftAssignments g))"
  shows "(map row_pair (handleSpinComplete_results r g rows) = log_pairs (giftAssignments g'))
    = (map_option rowPlayer (find (li_matches v) rows) = Some v)"
proof -
  from assms(3) obtain c' where "currentPlayer g = Some c'" and "fst (wheelNames g c') \<noteq> []"
    by (rule handleSpinComplete_Some_cases)
  with assms(1,2) have sw: "swap_wheel g c \<noteq> []" by simp
  have res: "handleSpinComplete_results r g rows =
      addResultToList c (gift va) (Some (swapMessage v)) (updateResultInList v c rows)"
    using assms(1,2,4,5) sw by (simp add: handleSpinComplete_results_def Let_def)
  from assms(3) handleSpinComplete_swap [OF assms(1,2) sw, of r] assms(4,5)
  have "giftAssignments g' = set_first_gift v c (giftAssignments g) @ [\<lparr>player = c, gift = gift va\<rparr>]"
    by (auto simp: Let_def swap_gifts_found)
  then have "log_pairs (giftAssignments g') = (c, gift va) # map (give_to v c) (map row_pair rows)"
    using assms(12,13) by (simp add: log_pairs_set_first_gift)
  moreover have "map row_pair (handleSpinComplete_results r g rows) =
      (c, gift va) # map row_pair (updateResultInList v c rows)"
    using res assms(6,7) by simp
  moreover have "distinct (map rowPlayer rows)" and "v \<in> set (map rowPlayer rows)"
  proof -
    have "map rowPlayer rows = map fst (map row_pair rows)" by (simp add: row_pair_def)
    also have "\<dots> = rev (map player (giftAssignments g))" using assms(12) by (simp add: log_pairs_def rev_map)
    finally have "map rowPlayer rows = rev (map player (giftAssignments g))" .
    moreover from find_player_Some [OF assms(5)] have "v \<in> set (map player (giftAssignments g))" by force
    ultimately show "distinct (map rowPlayer rows)" "v \<in> set (map rowPlayer rows)"
      using assms(13) by simp_all
  qed
  ultimately show ?thesis using update_rows_iff [OF assms(11) _ _ assms(9,10,8)] by simp
qed

end
