(* ===== verification/Controller.thy ===== *)
theory Controller
  imports Engine Roster Results
begin

text \<open>
  The page controller of \<^verbatim>\<open>src/gift-game.js\<close>: the DOM state that decides which
  handler a user action reaches (which modal is open, whether the spin button is
  disabled, whether the start button is still shown, whether a spin animation runs),
  the handlers themselves as state transformers over the record \<open>page\<close>, and the page
  as a state machine driven by user events. A handler that calls \<^verbatim>\<open>alert\<close> returns the
  alert beside its new state. Timers (\<^verbatim>\<open>setTimeout\<close> before a modal opens, the
  6--8 s animation) are collapsed: a modal opens at once, and a running animation
  ends with the event \<open>SpinFinished r\<close>, \<open>r\<close> the slice under the pointer.
\<close>

section \<open>Page state\<close>

datatype screen = Board | SelectModal | WinnerModal | SummaryModal

datatype alert = TooFewParticipants | NoOtherPlayers

record page =
  game :: game
  screen :: screen
  isSpinning :: bool
  spinDisabled :: bool
  started :: bool
  resultsList :: "row list"

type_synonym outcome = "page \<times> alert option"

section \<open>Handlers\<close>

definition updateParticipants :: "string \<Rightarrow> game \<Rightarrow> game" where
  "updateParticipants txt g =
     (let ps = parse_names txt
      in g\<lparr>participants := ps,
           availableParticipants := filter (\<lambda>p. p \<notin> set (playedParticipants g)) ps\<rparr>)"

text \<open>The \<^verbatim>\<open>input\<close> listener of the name text area.\<close>

definition handleNameInputChange :: "string \<Rightarrow> page \<Rightarrow> page" where
  "handleNameInputChange t u = u\<lparr>game := updateParticipants t (game u)\<rparr>"

text \<open>
  Opening the selection modal; its buttons are \<open>populatePlayerSelection\<close> of the
  state at the time of the click (\<^verbatim>\<open>updateParticipants\<close> re-renders them while the
  modal is open).
\<close>

definition showPlayerSelectionModal :: "page \<Rightarrow> page" where
  "showPlayerSelectionModal u = u\<lparr>screen := SelectModal\<rparr>"

definition loadParticipants :: "game \<Rightarrow> game" where
  "loadParticipants g = updateParticipants (join_nl defaultParticipants) g"

text \<open>The page after \<^verbatim>\<open>DOMContentLoaded\<close>: defaults loaded, spin button disabled.\<close>

definition page_loaded :: page where
  "page_loaded = \<lparr>game = loadParticipants empty_game, screen = Board, isSpinning = False,
     spinDisabled = True, started = False, resultsList = []\<rparr>"

definition resetDefaults :: "bool \<Rightarrow> page \<Rightarrow> page" where
  "resetDefaults confirmed u = (if confirmed then u\<lparr>game := loadParticipants (game u)\<rparr> else u)"

definition startGame :: "page \<Rightarrow> outcome" where
  "startGame u =
     (if length (participants (game u)) < 2 then (u, Some TooFewParticipants)
      else (showPlayerSelectionModal (u\<lparr>started := True\<rparr>), None))"

definition clickPlayer :: "name \<Rightarrow> page \<Rightarrow> page" where
  "clickPlayer n u = u\<lparr>game := selectPlayer n (game u), screen := Board, spinDisabled := False\<rparr>"

definition startSpin :: "name \<Rightarrow> page \<Rightarrow> outcome" where
  "startSpin c u =
     (let u1 = u\<lparr>isSpinning := True, spinDisabled := True\<rparr>
      in if fst (wheelNames (game u) c) = []
         then (u1\<lparr>isSpinning := False, spinDisabled := False\<rparr>, Some NoOtherPlayers)
         else (u1, None))"

definition handleSpinClick :: "page \<Rightarrow> outcome" where
  "handleSpinClick u =
     (if isSpinning u then (u, None)
      else case currentPlayer (game u) of
             None \<Rightarrow> (showPlayerSelectionModal u, None)
           | Some c \<Rightarrow> startSpin c u)"

text \<open>The last animation frame: the spin stops and \<^verbatim>\<open>handleSpinComplete\<close> runs.\<close>

definition finishSpin :: "nat \<Rightarrow> page \<Rightarrow> page option" where
  "finishSpin r u =
     (case handleSpinComplete r (game u) of
        None \<Rightarrow> None
      | Some g \<Rightarrow> Some (u\<lparr>isSpinning := False, game := g, screen := WinnerModal,
          resultsList := handleSpinComplete_results r (game u) (resultsList u)\<rparr>))"

definition closeModal :: "page \<Rightarrow> page" where
  "closeModal u =
     (let g = game u
      in if length (participants g) \<le> length (playedParticipants g) then u\<lparr>screen := SummaryModal\<rparr>
         else if currentPlayer g = None then showPlayerSelectionModal u
         else u\<lparr>screen := Board, spinDisabled := False\<rparr>)"

definition closeSummary :: "page \<Rightarrow> page" where
  "closeSummary u = u\<lparr>screen := Board\<rparr>"

text \<open>The summary table lists the log most recent first.\<close>

definition summaryRows :: "game \<Rightarrow> assignment list" where
  "summaryRows g = rev (giftAssignments g)"

text \<open>The space bar handler registered on \<^verbatim>\<open>DOMContentLoaded\<close>.\<close>

definition onSpace :: "page \<Rightarrow> outcome" where
  "onSpace u =
     (if screen u = WinnerModal then (closeModal u, None)
      else if screen u = SummaryModal then (closeSummary u, None)
      else if screen u = SelectModal then (u, None)
      else if \<not> spinDisabled u then handleSpinClick u
      else (u, None))"

section \<open>Events\<close>

text \<open>
  What a user can do, and which handler it reaches. An event the page does not offer
  in a state (a disabled or hidden button, a closed modal, no running animation) is
  \<open>None\<close>. The name text area can be edited at any time: it sits in the controls
  panel, which the toggle button shows again after the start.
\<close>

datatype event =
    EditNames string
  | ResetDefaults bool
  | ClickStart
  | ClickSelect name
  | ClickSpin
  | PressSpace
  | SpinFinished nat
  | ClickCloseWinner
  | ClickCloseSummary

fun dispatch :: "event \<Rightarrow> page \<Rightarrow> outcome option" where
  "dispatch (EditNames t) u = Some (handleNameInputChange t u, None)"
| "dispatch (ResetDefaults b) u = Some (resetDefaults b u, None)"
| "dispatch ClickStart u = (if started u then None else Some (startGame u))"
| "dispatch (ClickSelect n) u =
     (if screen u = SelectModal \<and> n \<in> set (populatePlayerSelection (game u))
      then Some (clickPlayer n u, None) else None)"
| "dispatch ClickSpin u =
     (if screen u = Board \<and> \<not> spinDisabled u then Some (handleSpinClick u) else None)"
| "dispatch PressSpace u = Some (onSpace u)"
| "dispatch (SpinFinished r) u =
     (if isSpinning u then map_option (\<lambda>u'. (u', None)) (finishSpin r u) else None)"
| "dispatch ClickCloseWinner u =
     (if screen u = WinnerModal then Some (closeModal u, None) else None)"
| "dispatch ClickCloseSummary u =
     (if screen u = SummaryModal then Some (closeSummary u, None) else None)"

text \<open>
  The roster is frozen once the game has started: the spec asks that editing the
  names be a no-op on play in progress, which the code does not enforce; the
  correctness theorems are about runs that do not edit the names after the start.
\<close>

definition roster_frozen :: "event \<Rightarrow> page \<Rightarrow> bool" where
  "roster_frozen e u =
     (case e of EditNames _ \<Rightarrow> \<not> started u | ResetDefaults b \<Rightarrow> \<not> started u \<or> \<not> b | _ \<Rightarrow> True)"

inductive reachable :: "page \<Rightarrow> bool" where
  loaded: "reachable page_loaded"
| event: "reachable u \<Longrightarrow> dispatch e u = Some (u', a) \<Longrightarrow> roster_frozen e u \<Longrightarrow> reachable u'"

text \<open>Running a list of events, stopping at one the page does not offer.\<close>

fun run :: "page \<Rightarrow> event list \<Rightarrow> page option" where
  "run u [] = Some u"
| "run u (e # es) = (case dispatch e u of None \<Rightarrow> None | Some (u', a) \<Rightarrow> run u' es)"

fun frozen_run :: "page \<Rightarrow> event list \<Rightarrow> bool" where
  "frozen_run u [] = True"
| "frozen_run u (e # es) =
     (roster_frozen e u \<and> (case dispatch e u of None \<Rightarrow> False | Some (u', a) \<Rightarrow> frozen_run u' es))"

declare handleNameInputChange_def [simp, handler_defs] showPlayerSelectionModal_def [simp, handler_defs]

declare updateParticipants_def [handler_defs] startGame_def [handler_defs]
  clickPlayer_def [handler_defs] startSpin_def [handler_defs] handleSpinClick_def [handler_defs]
  finishSpin_def [handler_defs] closeModal_def [handler_defs] closeSummary_def [handler_defs]
  onSpace_def [handler_defs] resetDefaults_def [handler_defs]

section \<open>Runs and reachability\<close>

lemma run_reachable:
  "reachable u \<Longrightarrow> frozen_run u es \<Longrightarrow> run u es = Some u' \<Longrightarrow> reachable u'"
proof (induction es arbitrary: u)
  case Nil
  then show ?case by simp
next
  case (Cons e es)
  from Cons.prems obtain v a where d: "dispatch e u = Some (v, a)"
    by (auto split: option.splits)
  with Cons.prems have "reachable v" by (auto intro: reachable.event)
  with Cons.IH Cons.prems d show ?case by auto
qed

section \<open>Roster updates\<close>

text \<open>
  Reading the names is idempotent: applying \<^verbatim>\<open>updateParticipants\<close> twice with the
  same text, or writing the derived roster back one name per line and reading it
  again, gives the same state (roster and available list).
\<close>

theorem updateParticipants_idempotent:
  "updateParticipants t (updateParticipants t g) = updateParticipants t g
   \<and> updateParticipants (join_nl (participants (updateParticipants t g))) (updateParticipants t g)
     = updateParticipants t g"
proof -
  have "parse_names (join_nl (parse_names t)) = parse_names t"
    by (rule parse_join_names) (auto intro: wf_parse_names)
  then show ?thesis by (simp add: updateParticipants_def Let_def)
qed

section \<open>Alerts\<close>

text \<open>
  C8: Validation errors change nothing: an event that raises an alert (too few
  names at the start, no other player on the wheel) leaves the whole page, game
  state, modal, spin button and animation flag, as it was.
\<close>

theorem alert_leaves_page:
  assumes "dispatch e u = Some (u', Some al)"
  shows "u' = u"
  using assms
  by (cases e) (auto simp: startGame_def handleSpinClick_def startSpin_def onSpace_def
      resetDefaults_def closeModal_def closeSummary_def Let_def split: if_splits option.splits)

theorem alert_leaves_page_witness:
  "fst (the (dispatch ClickStart (the (run page_loaded [EditNames ''A''])))) =
   the (run page_loaded [EditNames ''A''])"
proof -
  let ?u = "the (run page_loaded [EditNames ''A''])"
  have "dispatch ClickStart ?u = Some (fst (the (dispatch ClickStart ?u)), Some TooFewParticipants)"
    by (simp add: page_loaded_def handler_defs loadParticipants_def parse_names_def js_trim_def
        is_js_space_def nl_def)
  from alert_leaves_page [OF this] show ?thesis .
qed

end
