(* ===== verification/Invariants.thy ===== *)
theory Invariants
  imports Controller
begin

text \<open>
  The invariants of the engine state and their preservation by a spin.
  \<open>log_inv\<close> relates the log to the played and claimed arrays; \<open>chain_inv\<close> describes
  the one open chain of spins: either no chain is open (everybody who played has had
  their gift drawn), or the player who started it has played but nobody has drawn
  their gift yet, and the current player's gift is the only claimed gift of someone
  who has not played. \<open>complete\<close> is the completion test of \<^verbatim>\<open>closeModal\<close>.
\<close>

definition complete :: "game \<Rightarrow> bool" where
  "complete g = (length (participants g) \<le> length (playedParticipants g))"

definition log_inv :: "game \<Rightarrow> bool" where
  "log_inv g =
     (map player (giftAssignments g) = playedParticipants g
      \<and> distinct (playedParticipants g) \<and> distinct (claimedGifts g)
      \<and> distinct (map gift (giftAssignments g))
      \<and> set (map gift (giftAssignments g)) = set (claimedGifts g)
      \<and> set (playedParticipants g) \<subseteq> set (participants g)
      \<and> set (claimedGifts g) \<subseteq> set (participants g)
      \<and> (\<forall>a \<in> set (giftAssignments g). player a \<noteq> gift a))"

definition chain_inv :: "game \<Rightarrow> bool" where
  "chain_inv g =
     (case currentPlayer g of
        None \<Rightarrow> set (playedParticipants g) = set (claimedGifts g)
      | Some c \<Rightarrow> c \<in> set (participants g) \<and> c \<notin> set (playedParticipants g)
          \<and> ((c \<notin> set (claimedGifts g) \<and> set (playedParticipants g) = set (claimedGifts g))
             \<or> (\<exists>x \<in> set (playedParticipants g). x \<notin> set (claimedGifts g)
                  \<and> set (claimedGifts g) = insert c (set (playedParticipants g) - {x}))))"

section \<open>Lemmas\<close>

lemma normal_winner_facts:
  assumes "normal_wheel g c \<noteq> []" and "w = normal_wheel g c ! winnerIndex r (normal_wheel g c)"
  shows "w \<in> set (participants g)" "w \<noteq> c" "w \<notin> set (claimedGifts g)"
proof -
  from assms have "w \<in> set (normal_wheel g c)" by (simp add: winner_in_wheel)
  then show "w \<in> set (participants g)" "w \<noteq> c" "w \<notin> set (claimedGifts g)"
    by (simp_all add: set_normal_wheel)
qed

lemma chain_inv_Some:
  "chain_inv g \<Longrightarrow> currentPlayer g = Some c \<Longrightarrow> c \<in> set (participants g) \<and> c \<notin> set (playedParticipants g)"
  by (simp add: chain_inv_def)

lemma normal_spin_log_inv:
  assumes "log_inv g" and "c \<in> set (participants g)" and "c \<notin> set (playedParticipants g)"
    and "w \<in> set (participants g)" and "w \<noteq> c" and "w \<notin> set (claimedGifts g)"
  shows "log_inv (record_result False c w (g\<lparr>currentPlayer := cp\<rparr>))"
  using assms by (auto simp: log_inv_def)

lemma chain_inv_openI:
  assumes "currentPlayer g = Some w" and "w \<in> set (participants g)"
    and "w \<notin> set (playedParticipants g)" and "x \<in> set (playedParticipants g)"
    and "x \<notin> set (claimedGifts g)"
    and "set (claimedGifts g) = insert w (set (playedParticipants g) - {x})"
  shows "chain_inv g"
  unfolding chain_inv_def using assms by (simp only: option.case) blast

lemma chain_inv_closedI:
  "currentPlayer g = None \<Longrightarrow> set (playedParticipants g) = set (claimedGifts g) \<Longrightarrow> chain_inv g"
  by (simp add: chain_inv_def)

lemma normal_spin_chain_inv:
  assumes "chain_inv g" and "currentPlayer g = Some c"
    and "w \<in> set (participants g)" and "w \<noteq> c" and "w \<notin> set (claimedGifts g)"
  shows "chain_inv (record_result False c w (g\<lparr>currentPlayer := next_player (winner_warnings g False w) w\<rparr>))"
    (is "chain_inv ?g'")
proof -
  let ?P = "set (playedParticipants g)" and ?C = "set (claimedGifts g)"
  from assms(1,2) have c: "c \<in> set (participants g)" "c \<notin> ?P" by (simp_all add: chain_inv_def)
  have np: "next_player (winner_warnings g False w) w = (if w \<in> ?P then None else Some w)"
    using assms(5) by (simp add: next_player_def winner_warnings_def)
  have P': "set (playedParticipants ?g') = insert c ?P" by simp
  have C': "set (claimedGifts ?g') = insert w ?C" by simp
  have R': "participants ?g' = participants g" by simp
  from assms(1,2) consider (fresh) "c \<notin> ?C" "?P = ?C"
    | (chained) x where "x \<in> ?P" "x \<notin> ?C" "?C = insert c (?P - {x})"
    by (auto simp: chain_inv_def)
  then show ?thesis
  proof cases
    case fresh
    with assms(5) have wP: "w \<notin> ?P" by simp
    have "insert w ?C = insert w (insert c ?P - {c})" using fresh c(2) by blast
    then show ?thesis
      using wP fresh assms(3,4) np
      by (intro chain_inv_openI [where x = c]) (simp_all only: P' C' R', simp_all)
  next
    case chained
    show ?thesis
    proof (cases "w = x")
      case True
      have "insert c ?P = insert x ?C" using chained True by blast
      with True chained np show ?thesis by (intro chain_inv_closedI) (simp_all only: P' C', simp_all)
    next
      case False
      with chained assms(5) have wP: "w \<notin> ?P" by blast
      have xc: "x \<noteq> c" using chained c(2) by blast
      have "insert w ?C = insert w (insert c ?P - {x})" using chained xc by blast
      then show ?thesis
        using wP False chained assms(3,4) np
        by (intro chain_inv_openI [where x = x]) (simp_all only: P' C' R', simp_all)
    qed
  qed
qed

lemma swap_case_shape:
  assumes "log_inv g" and "chain_inv g" and "currentPlayer g = Some c" and "normal_wheel g c = []"
  shows "set (playedParticipants g) = set (participants g) - {c}"
    and "set (claimedGifts g) = set (participants g) - {c}"
proof -
  let ?P = "set (playedParticipants g)" and ?C = "set (claimedGifts g)" and ?R = "set (participants g)"
  from assms(4) have sub: "?R - {c} \<subseteq> ?C" using set_normal_wheel [of g c] by auto
  from assms(1) have PR: "?P \<subseteq> ?R" and CR: "?C \<subseteq> ?R" by (simp_all add: log_inv_def)
  from assms(2,3) have c: "c \<notin> ?P" by (simp add: chain_inv_def)
  from assms(2,3) consider (fresh) "c \<notin> ?C" "?P = ?C"
    | (chained) x where "x \<in> ?P" "x \<notin> ?C"
    by (auto simp: chain_inv_def)
  then have "c \<notin> ?C \<and> ?P = ?C"
  proof cases
    case fresh
    then show ?thesis by simp
  next
    case chained
    with PR c sub show ?thesis by blast
  qed
  with sub CR show "?C = ?R - {c}" by blast
  with \<open>c \<notin> ?C \<and> ?P = ?C\<close> show "?P = ?R - {c}" by simp
qed

lemma swap_victim_found:
  assumes "log_inv g" and "chain_inv g" and "currentPlayer g = Some c" and "normal_wheel g c = []"
    and "v \<in> set (swap_wheel g c)"
  shows "find (\<lambda>a. player a = v) (giftAssignments g) \<noteq> None"
proof -
  from assms(5) have "v \<in> set (participants g) - {c}" by (simp add: set_swap_wheel)
  with swap_case_shape(1) [OF assms(1-4)] have "v \<in> set (playedParticipants g)" by simp
  with assms(1) have "v \<in> set (map player (giftAssignments g))" by (simp add: log_inv_def)
  then show ?thesis by (simp add: find_player_None)
qed

lemma set_first_gift_no_self:
  "\<forall>a \<in> set as. player a \<noteq> gift a \<Longrightarrow> v \<noteq> x \<Longrightarrow>
   \<forall>a \<in> set (set_first_gift v x as). player a \<noteq> gift a"
  by (induction as) auto

lemma swap_spin_inv:
  assumes "log_inv g" and "chain_inv g" and "distinct (participants g)"
    and "currentPlayer g = Some c" and "normal_wheel g c = []"
    and "v \<in> set (swap_wheel g c)"
    and "find (\<lambda>a. player a = v) (giftAssignments g) = Some va"
  defines "g' \<equiv> record_result True c (gift va)
      (g\<lparr>currentPlayer := Some (gift va), giftAssignments := set_first_gift v c (giftAssignments g)\<rparr>)"
  shows "log_inv g' \<and> complete g' \<and> set (claimedGifts g') = set (participants g')"
proof -
  let ?as = "giftAssignments g"
  let ?P = "set (playedParticipants g)" and ?C = "set (claimedGifts g)" and ?R = "set (participants g)"
  note shape = swap_case_shape [OF assms(1,2,4,5)]
  from assms(2,4) have cR: "c \<in> ?R" by (simp add: chain_inv_def)
  from assms(6) have vc: "v \<noteq> c" by (simp add: set_swap_wheel)
  have cP: "c \<notin> ?P" and cC: "c \<notin> ?C" using shape by simp_all
  from find_player_Some [OF assms(7)] have va: "va \<in> set ?as" "player va = v" by simp_all
  with assms(1) have gva: "gift va \<in> ?C" by (force simp: log_inv_def)
  have ms: "mset (map gift (set_first_gift v c ?as @ [\<lparr>player = c, gift = gift va\<rparr>])) =
            mset (map gift ?as @ [c])"
    using mset_gifts_set_first_gift [OF assms(7), of c] by simp
  from assms(1) cC have d: "distinct (map gift ?as @ [c])" by (simp add: log_inv_def)
  have g'log: "giftAssignments g' = set_first_gift v c ?as @ [\<lparr>player = c, gift = gift va\<rparr>]"
    by (simp add: g'_def)
  have g'P: "playedParticipants g' = playedParticipants g @ [c]" using cP by (simp add: g'_def)
  have g'C: "claimedGifts g' = claimedGifts g @ [c]" using cC by (simp add: g'_def)
  have g'R: "participants g' = participants g" by (simp add: g'_def)
  have self: "\<forall>a \<in> set (giftAssignments g'). player a \<noteq> gift a"
    using set_first_gift_no_self [of ?as v c] assms(1) vc cC gva
    by (auto simp: g'log log_inv_def)
  have "log_inv g'"
    unfolding log_inv_def g'log g'P g'C g'R
    using assms(1) cP cC cR ms d self g'log mset_eq_imp_distinct_iff [OF ms] mset_eq_setD [OF ms]
    by (simp add: log_inv_def)
  moreover have "set (playedParticipants g') = ?R" using shape cR by (auto simp: g'P)
  moreover have "set (claimedGifts g') = ?R" using shape cR by (auto simp: g'C)
  moreover have "distinct (playedParticipants g')" using assms(1) cP by (simp add: g'P log_inv_def)
  ultimately show ?thesis
  proof (intro conjI)
    assume P': "set (playedParticipants g') = ?R" and d': "distinct (playedParticipants g')"
    have "length (playedParticipants g') = card ?R" using P' d' by (metis distinct_card)
    moreover have "length (participants g) = card ?R" using assms(3) by (simp add: distinct_card)
    ultimately show "complete g'" by (simp add: complete_def g'R)
  qed (simp_all add: g'R)
qed

lemma complete_iff:
  assumes "log_inv g" and "distinct (participants g)"
  shows "complete g = (set (playedParticipants g) = set (participants g))"
proof
  assume "complete g"
  with assms show "set (playedParticipants g) = set (participants g)"
    by (intro distinct_length_eq_set) (simp_all add: log_inv_def complete_def)
next
  assume "set (playedParticipants g) = set (participants g)"
  with assms have "length (playedParticipants g) = length (participants g)"
    by (metis distinct_card log_inv_def)
  then show "complete g" by (simp add: complete_def)
qed

lemma complete_all_claimed:
  assumes "log_inv g" and "chain_inv g" and "distinct (participants g)" and "complete g"
  shows "set (claimedGifts g) = set (participants g)"
proof -
  from assms(1,3,4) have P: "set (playedParticipants g) = set (participants g)"
    by (simp add: complete_iff)
  show ?thesis
  proof (cases "currentPlayer g")
    case None
    with assms(2) P show ?thesis by (simp add: chain_inv_def)
  next
    case (Some w)
    with assms(2) have "w \<in> set (participants g)" "w \<notin> set (playedParticipants g)"
      by (simp_all add: chain_inv_def)
    with P show ?thesis by simp
  qed
qed

lemma swap_spin_result:
  assumes "log_inv g" and "chain_inv g" and "distinct (participants g)"
    and "currentPlayer g = Some c" and "normal_wheel g c = []"
    and "handleSpinComplete r g = Some g'"
  shows "log_inv g' \<and> complete g' \<and> set (claimedGifts g') = set (participants g')"
proof -
  from assms(6) obtain c' where "currentPlayer g = Some c'" and ne: "fst (wheelNames g c') \<noteq> []"
    by (rule handleSpinComplete_Some_cases)
  with assms(4,5) have sw: "swap_wheel g c \<noteq> []" by simp
  let ?v = "swap_wheel g c ! winnerIndex r (swap_wheel g c)"
  have vin: "?v \<in> set (swap_wheel g c)" using sw by (rule winner_in_wheel)
  from swap_victim_found [OF assms(1,2,4,5) vin]
  obtain va where va: "find (\<lambda>a. player a = ?v) (giftAssignments g) = Some va" by auto
  from assms(4-6) sw va
  have g': "g' = record_result True c (gift va)
      (g\<lparr>currentPlayer := Some (gift va), giftAssignments := set_first_gift ?v c (giftAssignments g)\<rparr>)"
    by (simp add: handleSpinComplete_swap Let_def swap_gifts_found)
  show ?thesis unfolding g' by (rule swap_spin_inv [OF assms(1-5) vin va])
qed

text \<open>One spin keeps the invariants; when it completes the game every gift is claimed.\<close>

lemma spin_game_inv:
  assumes "log_inv g" and "chain_inv g" and "distinct (participants g)"
    and "handleSpinComplete r g = Some g'"
  shows "log_inv g' \<and> (\<not> complete g' \<longrightarrow> chain_inv g')
         \<and> (complete g' \<longrightarrow> set (claimedGifts g') = set (participants g'))"
proof -
  from assms(4) obtain c where cur: "currentPlayer g = Some c"
    and ne: "fst (wheelNames g c) \<noteq> []" by (rule handleSpinComplete_Some_cases)
  from assms(2) cur have c: "c \<in> set (participants g)" "c \<notin> set (playedParticipants g)"
    by (simp_all add: chain_inv_def)
  have R': "participants g' = participants g"
    using assms(4) by (rule handleSpinComplete_participants)
  show ?thesis
  proof (cases "normal_wheel g c = []")
    case False
    let ?w = "normal_wheel g c ! winnerIndex r (normal_wheel g c)"
    note w = normal_winner_facts [OF False refl, of r]
    from assms(4) cur False
    have g': "g' = record_result False c ?w (g\<lparr>currentPlayer := next_player (winner_warnings g False ?w) ?w\<rparr>)"
      by (simp add: handleSpinComplete_normal Let_def)
    have li: "log_inv g'" unfolding g' using assms(1) c w by (rule normal_spin_log_inv)
    have ci: "chain_inv g'" unfolding g' using assms(2) cur w by (rule normal_spin_chain_inv)
    from li ci assms(3) R' show ?thesis using complete_all_claimed [of g'] by simp
  next
    case True
    from swap_spin_result [OF assms(1-3) cur True assms(4)] show ?thesis by simp
  qed
qed

end
