(* ===== verification/Safety.thy ===== *)
theory Safety
  imports Invariants
begin

text \<open>
  The page-level invariant: before the start nothing has been played and the spin
  button is disabled; after the start, on a roster without duplicate names, the engine
  invariants hold and the open modal, the spin button and the running animation agree
  with the game. Every event of a run that leaves the roster alone after the start
  keeps it, so it holds in every reachable state.
\<close>

definition game_inv :: "game \<Rightarrow> bool" where
  "game_inv g =
     (2 \<le> length (participants g) \<and> log_inv g \<and> (\<not> complete g \<longrightarrow> chain_inv g)
      \<and> (complete g \<longrightarrow> set (claimedGifts g) = set (participants g)))"

definition screen_inv :: "page \<Rightarrow> bool" where
  "screen_inv u =
     ((screen u = SelectModal \<longrightarrow> currentPlayer (game u) = None \<and> \<not> complete (game u) \<and> \<not> isSpinning u)
      \<and> (screen u = Board \<and> \<not> spinDisabled u \<longrightarrow>
           currentPlayer (game u) \<noteq> None \<and> \<not> complete (game u) \<and> \<not> isSpinning u)
      \<and> (isSpinning u \<longrightarrow> screen u = Board \<and> spinDisabled u \<and> currentPlayer (game u) \<noteq> None
           \<and> \<not> complete (game u))
      \<and> (screen u = Board \<and> spinDisabled u \<and> \<not> isSpinning u \<longrightarrow> complete (game u))
      \<and> (screen u = WinnerModal \<longrightarrow> spinDisabled u \<and> \<not> isSpinning u)
      \<and> (screen u = SummaryModal \<longrightarrow> spinDisabled u \<and> \<not> isSpinning u \<and> complete (game u)))"

definition setup_inv :: "page \<Rightarrow> bool" where
  "setup_inv u =
     (playedParticipants (game u) = [] \<and> claimedGifts (game u) = [] \<and> giftAssignments (game u) = []
      \<and> currentPlayer (game u) = None \<and> screen u = Board \<and> \<not> isSpinning u \<and> spinDisabled u)"

definition page_inv :: "page \<Rightarrow> bool" where
  "page_inv u =
     (if started u then distinct (participants (game u)) \<longrightarrow> game_inv (game u) \<and> screen_inv u
      else setup_inv u)"

text \<open>
  What the summary promises: every participant appears once as a player and once as
  a gift owner, and nobody receives their own gift.
\<close>

definition derangement_log :: "game \<Rightarrow> bool" where
  "derangement_log g =
     (mset (map player (giftAssignments g)) = mset (participants g)
      \<and> mset (map gift (giftAssignments g)) = mset (participants g)
      \<and> list_all (\<lambda>a. player a \<noteq> gift a) (giftAssignments g))"

text \<open>
  Runs used as concrete witnesses: three players \<open>A\<close>, \<open>B\<close>, \<open>C\<close>. In \<open>cycle_run\<close>
  the chain closes into the cycle A, B, C; in \<open>swap_prefix\<close> the first chain closes
  after A and B, leaving C alone for the last spin, which is a swap.
\<close>

definition demo_names :: string where
  "demo_names = join_nl [''A'', ''B'', ''C'']"

definition cycle_run :: "event list" where
  "cycle_run = [EditNames demo_names, ClickStart, ClickSelect ''A'',
     ClickSpin, SpinFinished 0, ClickCloseWinner, ClickSpin, SpinFinished 1, ClickCloseWinner,
     ClickSpin, SpinFinished 0, ClickCloseWinner]"

definition swap_prefix :: "event list" where
  "swap_prefix = [EditNames demo_names, ClickStart, ClickSelect ''A'',
     ClickSpin, SpinFinished 0, ClickCloseWinner, ClickSpin, SpinFinished 0, ClickCloseWinner]"

section \<open>Handlers keep the invariant\<close>

lemma log_inv_current [simp]: "log_inv (g\<lparr>currentPlayer := x\<rparr>) = log_inv g"
  by (simp add: log_inv_def)

lemma complete_current [simp]: "complete (g\<lparr>currentPlayer := x\<rparr>) = complete g"
  by (simp add: complete_def)

lemma other_participant:
  assumes "distinct ps" and "2 \<le> length ps" and "c \<in> set ps"
  shows "\<exists>x \<in> set ps. x \<noteq> c"
proof (rule ccontr)
  assume "\<not> (\<exists>x \<in> set ps. x \<noteq> c)"
  then have "set ps \<subseteq> {c}" by auto
  then have "card (set ps) \<le> 1" using card_mono [of "{c}" "set ps"] by simp
  with assms(1,2) show False by (simp add: distinct_card)
qed

lemma populate_facts:
  assumes "n \<in> set (populatePlayerSelection g)"
    and "set (playedParticipants g) = set (claimedGifts g)"
  shows "n \<in> set (participants g) \<and> n \<notin> set (playedParticipants g) \<and> n \<notin> set (claimedGifts g)"
  using assms by (auto simp: populatePlayerSelection_def split: if_splits)

lemma clickPlayer_inv:
  assumes "game_inv (game u)" and "screen_inv u" and "screen u = SelectModal"
    and "n \<in> set (populatePlayerSelection (game u))"
  shows "game_inv (game (clickPlayer n u)) \<and> screen_inv (clickPlayer n u)"
proof -
  let ?g = "game u"
  from assms(2,3) have s: "currentPlayer ?g = None" "\<not> complete ?g" "\<not> isSpinning u"
    by (simp_all add: screen_inv_def)
  with assms(1) have "chain_inv ?g" by (simp add: game_inv_def)
  with s have PC: "set (playedParticipants ?g) = set (claimedGifts ?g)" by (simp add: chain_inv_def)
  from populate_facts [OF assms(4) PC]
  have "chain_inv (?g\<lparr>currentPlayer := Some n\<rparr>)" using PC by (simp add: chain_inv_def)
  with assms(1) s show ?thesis
    by (simp add: game_inv_def screen_inv_def clickPlayer_def selectPlayer_def)
qed

lemma spinClick_result:
  assumes "game_inv (game u)" and "screen_inv u" and "distinct (participants (game u))"
    and "screen u = Board" and "\<not> spinDisabled u"
  shows "handleSpinClick u = (u\<lparr>isSpinning := True, spinDisabled := True\<rparr>, None)"
proof -
  let ?g = "game u"
  from assms(2,4,5) obtain c where c: "currentPlayer ?g = Some c"
    and s: "\<not> complete ?g" "\<not> isSpinning u" by (auto simp: screen_inv_def)
  with assms(1) have "chain_inv ?g" by (simp add: game_inv_def)
  with c have "c \<in> set (participants ?g)" by (simp add: chain_inv_def)
  with assms(1,3) obtain x where "x \<in> set (participants ?g)" "x \<noteq> c"
    using other_participant [of "participants ?g" c] by (auto simp: game_inv_def)
  then have "fst (wheelNames ?g c) \<noteq> []" by (rule wheelNames_nonempty)
  with c s show ?thesis by (simp add: handleSpinClick_def startSpin_def)
qed

lemma spinClick_inv:
  assumes "game_inv (game u)" and "screen_inv u" and "distinct (participants (game u))"
    and "screen u = Board" and "\<not> spinDisabled u"
  shows "game (fst (handleSpinClick u)) = game u \<and> started (fst (handleSpinClick u)) = started u
    \<and> screen_inv (fst (handleSpinClick u)) \<and> snd (handleSpinClick u) = None"
proof -
  from assms(2,4,5) have "currentPlayer (game u) \<noteq> None" "\<not> complete (game u)"
    by (simp_all add: screen_inv_def)
  with assms show ?thesis by (simp add: spinClick_result screen_inv_def)
qed

lemma finishSpin_inv:
  assumes "game_inv (game u)" and "screen_inv u" and "distinct (participants (game u))"
    and "isSpinning u" and "finishSpin r u = Some u'"
  shows "game_inv (game u') \<and> screen_inv u' \<and> started u' = started u
    \<and> participants (game u') = participants (game u)"
proof -
  let ?g = "game u"
  from assms(2,4) have s: "\<not> complete ?g" "spinDisabled u" by (simp_all add: screen_inv_def)
  with assms(1) have inv: "log_inv ?g" "chain_inv ?g" by (simp_all add: game_inv_def)
  from assms(5) obtain g' where h: "handleSpinComplete r ?g = Some g'"
    and u': "u' = u\<lparr>isSpinning := False, game := g', screen := WinnerModal,
      resultsList := handleSpinComplete_results r (game u) (resultsList u)\<rparr>"
    by (auto simp: finishSpin_def split: option.splits)
  have R': "participants g' = participants ?g" using h by (rule handleSpinComplete_participants)
  from spin_game_inv [OF inv assms(3) h] R' assms(1)
  have "game_inv g'" by (simp add: game_inv_def)
  with s u' R' show ?thesis by (simp add: screen_inv_def)
qed

lemma closeModal_inv:
  assumes "game_inv (game u)" and "screen_inv u" and "screen u = WinnerModal"
  shows "game (closeModal u) = game u \<and> started (closeModal u) = started u
    \<and> screen_inv (closeModal u)"
  using assms by (auto simp: closeModal_def screen_inv_def complete_def Let_def)

lemma closeSummary_inv:
  assumes "screen_inv u" and "screen u = SummaryModal"
  shows "game (closeSummary u) = game u \<and> started (closeSummary u) = started u
    \<and> screen_inv (closeSummary u)"
  using assms by (simp add: closeSummary_def screen_inv_def)

lemma onSpace_inv:
  assumes "game_inv (game u)" and "screen_inv u" and "distinct (participants (game u))"
  shows "game (fst (onSpace u)) = game u \<and> started (fst (onSpace u)) = started u
    \<and> screen_inv (fst (onSpace u)) \<and> snd (onSpace u) = None"
proof -
  consider "screen u = WinnerModal" | "screen u = SummaryModal" | "screen u = SelectModal"
    | "screen u = Board" "\<not> spinDisabled u" | "screen u = Board" "spinDisabled u"
    by (cases "screen u") auto
  then show ?thesis
  proof cases
    case 1
    with assms closeModal_inv [of u] show ?thesis by (simp add: onSpace_def)
  next
    case 2
    with assms closeSummary_inv [of u] show ?thesis by (simp add: onSpace_def)
  next
    case 3
    with assms show ?thesis by (simp add: onSpace_def)
  next
    case 4
    with assms spinClick_inv [of u] show ?thesis by (simp add: onSpace_def)
  next
    case 5
    with assms show ?thesis by (simp add: onSpace_def)
  qed
qed

section \<open>Every event keeps the invariant\<close>

lemma started_dispatch_inv:
  assumes "started u" and "distinct (participants (game u))" and "game_inv (game u)"
    and "screen_inv u" and "dispatch e u = Some (u', a)" and "roster_frozen e u"
  shows "started u' \<and> participants (game u') = participants (game u) \<and> game_inv (game u')
    \<and> screen_inv u' \<and> a = None"
proof (cases e)
  case (EditNames t)
  with assms(1,6) show ?thesis by (simp add: roster_frozen_def)
next
  case (ResetDefaults b)
  with assms show ?thesis by (auto simp: roster_frozen_def resetDefaults_def)
next
  case ClickStart
  with assms(1,5) show ?thesis by simp
next
  case (ClickSelect n)
  with assms clickPlayer_inv [of u n] show ?thesis
    by (auto simp: clickPlayer_def selectPlayer_def split: if_splits)
next
  case ClickSpin
  with assms spinClick_inv [of u] show ?thesis by (auto split: if_splits)
next
  case PressSpace
  with assms onSpace_inv [of u] show ?thesis by auto
next
  case (SpinFinished r)
  with assms finishSpin_inv [of u r u'] show ?thesis by (auto split: if_splits)
next
  case ClickCloseWinner
  with assms closeModal_inv [of u] show ?thesis by (auto split: if_splits)
next
  case ClickCloseSummary
  with assms closeSummary_inv [of u] show ?thesis by (auto split: if_splits)
qed

lemma onSpace_frame:
  "game (fst (onSpace u)) = game u \<and> started (fst (onSpace u)) = started u"
  by (simp add: onSpace_def handleSpinClick_def startSpin_def closeModal_def closeSummary_def
      Let_def split: option.splits)

lemma started_frame:
  assumes "started u" and "dispatch e u = Some (u', a)" and "roster_frozen e u"
  shows "started u' \<and> participants (game u') = participants (game u)"
  using assms onSpace_frame [of u]
  by (cases e) (auto simp: roster_frozen_def resetDefaults_def clickPlayer_def selectPlayer_def
      handleSpinClick_def startSpin_def closeModal_def closeSummary_def finishSpin_def Let_def
      dest: handleSpinComplete_participants split: if_splits option.splits)

lemma setup_updateParticipants [simp]:
  "setup_inv (u\<lparr>game := updateParticipants t (game u)\<rparr>) = setup_inv u"
  by (simp add: setup_inv_def updateParticipants_def Let_def)

lemma start_inv:
  assumes "setup_inv u" and "2 \<le> length (participants (game u))"
  shows "game_inv (game u) \<and> screen_inv (u\<lparr>started := True, screen := SelectModal\<rparr>)"
proof -
  from assms(2) have "participants (game u) \<noteq> []" by auto
  with assms show ?thesis
    by (simp add: setup_inv_def game_inv_def log_inv_def chain_inv_def complete_def screen_inv_def)
qed

lemma setup_dispatch_inv:
  assumes "\<not> started u" and "setup_inv u" and "dispatch e u = Some (u', a)"
  shows "page_inv u'"
proof (cases e)
  case (EditNames t)
  with assms show ?thesis by (auto simp: page_inv_def)
next
  case (ResetDefaults b)
  with assms show ?thesis by (auto simp: page_inv_def resetDefaults_def loadParticipants_def)
next
  case ClickStart
  show ?thesis
  proof (cases "length (participants (game u)) < 2")
    case True
    with assms ClickStart show ?thesis by (auto simp: page_inv_def startGame_def)
  next
    case False
    with assms ClickStart start_inv [of u] show ?thesis
      by (auto simp: page_inv_def startGame_def)
  qed
next
  case (ClickSelect n)
  with assms show ?thesis by (simp add: setup_inv_def)
next
  case ClickSpin
  with assms show ?thesis by (simp add: setup_inv_def)
next
  case PressSpace
  with assms show ?thesis by (auto simp: setup_inv_def onSpace_def page_inv_def)
next
  case (SpinFinished r)
  with assms show ?thesis by (simp add: setup_inv_def)
next
  case ClickCloseWinner
  with assms show ?thesis by (simp add: setup_inv_def)
next
  case ClickCloseSummary
  with assms show ?thesis by (simp add: setup_inv_def)
qed

lemma page_loaded_inv: "setup_inv page_loaded"
  by (simp add: setup_inv_def page_loaded_def loadParticipants_def updateParticipants_def
      empty_game_def Let_def)

lemma dispatch_page_inv:
  assumes "page_inv u" and "dispatch e u = Some (u', a)" and "roster_frozen e u"
  shows "page_inv u'"
proof (cases "started u")
  case True
  note step = started_dispatch_inv [OF True _ _ _ assms(2,3)]
  show ?thesis
  proof (cases "distinct (participants (game u))")
    case d: True
    with assms(1) True step show ?thesis by (simp add: page_inv_def)
  next
    case False
    from started_frame [OF True assms(2,3)] False show ?thesis by (simp add: page_inv_def)
  qed
next
  case False
  with assms setup_dispatch_inv show ?thesis by (simp add: page_inv_def)
qed

lemma reachable_page_inv: "reachable u \<Longrightarrow> page_inv u"
proof (induction rule: reachable.induct)
  case loaded
  show ?case using page_loaded_inv by (simp add: page_inv_def page_loaded_def)
next
  case (event u e u' a)
  from event.IH event.hyps(2,3) show ?case by (rule dispatch_page_inv)
qed


lemmas run_eval = page_loaded_def loadParticipants_def handler_defs parse_names_def js_trim_def
  is_js_space_def nl_def empty_game_def Let_def handleSpinComplete_def demo_names_def

lemma reachable_run:
  "frozen_run page_loaded es \<Longrightarrow> run page_loaded es = Some u \<Longrightarrow> reachable u"
  using run_reachable [OF reachable.loaded] by blast

lemma reachable_started_screen:
  "reachable u \<Longrightarrow> \<not> started u \<Longrightarrow> setup_inv u"
  using reachable_page_inv [of u] by (simp add: page_inv_def)

lemma reachable_started_inv:
  "reachable u \<Longrightarrow> started u \<Longrightarrow> distinct (participants (game u)) \<Longrightarrow>
   game_inv (game u) \<and> screen_inv u"
  using reachable_page_inv [of u] by (simp add: page_inv_def)

lemma reachable_log_inv:
  assumes "reachable u" and "distinct (participants (game u))"
  shows "log_inv (game u)"
proof (cases "started u")
  case True
  with assms show ?thesis using reachable_started_inv by (simp add: game_inv_def)
next
  case False
  with assms(1) have "setup_inv u" by (rule reachable_started_screen)
  then show ?thesis by (simp add: setup_inv_def log_inv_def)
qed

lemma cycle_final:
  "run page_loaded cycle_run = Some (the (run page_loaded cycle_run))
   \<and> frozen_run page_loaded cycle_run
   \<and> screen (the (run page_loaded cycle_run)) = SummaryModal
   \<and> participants (game (the (run page_loaded cycle_run))) = [''A'', ''B'', ''C'']
   \<and> giftAssignments (game (the (run page_loaded cycle_run))) =
       [\<lparr>player = ''A'', gift = ''B''\<rparr>, \<lparr>player = ''B'', gift = ''C''\<rparr>, \<lparr>player = ''C'', gift = ''A''\<rparr>]"
  by (simp add: cycle_run_def run_eval roster_frozen_def)

lemma swap_states:
  "run page_loaded swap_prefix = Some (the (run page_loaded swap_prefix))
   \<and> frozen_run page_loaded swap_prefix
   \<and> screen (the (run page_loaded swap_prefix)) = SelectModal
   \<and> participants (game (the (run page_loaded swap_prefix))) = [''A'', ''B'', ''C'']
   \<and> populatePlayerSelection (game (the (run page_loaded swap_prefix))) = [''C'']
   \<and> run page_loaded (swap_prefix @ [ClickSelect ''C'', ClickSpin]) =
       Some (the (run page_loaded (swap_prefix @ [ClickSelect ''C'', ClickSpin])))
   \<and> frozen_run page_loaded (swap_prefix @ [ClickSelect ''C'', ClickSpin])
   \<and> isSpinning (the (run page_loaded (swap_prefix @ [ClickSelect ''C'', ClickSpin])))
   \<and> currentPlayer (game (the (run page_loaded (swap_prefix @ [ClickSelect ''C'', ClickSpin])))) = Some ''C''
   \<and> normal_wheel (game (the (run page_loaded (swap_prefix @ [ClickSelect ''C'', ClickSpin])))) ''C'' = []
   \<and> swap_wheel (game (the (run page_loaded (swap_prefix @ [ClickSelect ''C'', ClickSpin])))) ''C'' = [''A'', ''B'']
   \<and> participants (game (the (run page_loaded (swap_prefix @ [ClickSelect ''C'', ClickSpin])))) = [''A'', ''B'', ''C'']"
  by (simp add: swap_prefix_def run_eval roster_frozen_def)


lemma reachable_not_board_started:
  "reachable u \<Longrightarrow> screen u \<noteq> Board \<Longrightarrow> started u"
  using reachable_started_screen [of u] by (auto simp: setup_inv_def)

lemma select_candidates:
  assumes "game_inv g" and "distinct (participants g)" and "currentPlayer g = None"
    and "\<not> complete g"
  shows "populatePlayerSelection g \<noteq> []"
proof -
  from assms(1,3,4) have li: "log_inv g" and ci: "chain_inv g" and two: "2 \<le> length (participants g)"
    by (simp_all add: game_inv_def)
  from ci assms(3) have PC: "set (playedParticipants g) = set (claimedGifts g)"
    by (simp add: chain_inv_def)
  show ?thesis
  proof (cases "playedParticipants g = []")
    case True
    with two show ?thesis by (auto simp: populatePlayerSelection_def)
  next
    case False
    show ?thesis
    proof
      assume "populatePlayerSelection g = []"
      with False have "set (participants g) \<subseteq> set (claimedGifts g)"
        by (auto simp: populatePlayerSelection_def filter_empty_conv)
      with li PC have "set (playedParticipants g) = set (participants g)"
        by (auto simp: log_inv_def)
      with li assms(2,4) show False by (simp add: complete_iff)
    qed
  qed
qed

lemma spin_finishes:
  assumes "game_inv (game u)" and "screen_inv u" and "distinct (participants (game u))"
    and "isSpinning u"
  shows "\<exists>g'. handleSpinComplete r (game u) = Some g'
    \<and> length (playedParticipants g') = Suc (length (playedParticipants (game u)))"
proof -
  let ?g = "game u"
  from assms(2,4) obtain c where c: "currentPlayer ?g = Some c" and nc: "\<not> complete ?g"
    by (auto simp: screen_inv_def)
  with assms(1) have ci: "chain_inv ?g" and two: "2 \<le> length (participants ?g)"
    by (simp_all add: game_inv_def)
  from ci c have cR: "c \<in> set (participants ?g)" and cP: "c \<notin> set (playedParticipants ?g)"
    by (simp_all add: chain_inv_def)
  from other_participant [OF assms(3) two cR]
  obtain x where "x \<in> set (participants ?g)" "x \<noteq> c" by blast
  then have "fst (wheelNames ?g c) \<noteq> []" by (rule wheelNames_nonempty)
  with c obtain g' where h: "handleSpinComplete r ?g = Some g'"
    by (cases "handleSpinComplete r ?g") (auto simp: handleSpinComplete_None_iff)
  from handleSpinComplete_played [OF h c] cP have
    "length (playedParticipants g') = Suc (length (playedParticipants ?g))"
    by (simp add: length_push_new_fresh)
  with h show ?thesis by blast
qed

lemma complete_derangement:
  assumes "game_inv g" and "distinct (participants g)" and "complete g"
  shows "derangement_log g"
proof -
  from assms(1,3) have C: "set (claimedGifts g) = set (participants g)" and li: "log_inv g"
    by (simp_all add: game_inv_def)
  from li assms(2,3) have P: "set (playedParticipants g) = set (participants g)"
    by (simp add: complete_iff)
  from li P assms(2) have "mset (map player (giftAssignments g)) = mset (participants g)"
    by (simp add: log_inv_def set_eq_iff_mset_eq_distinct [symmetric])
  moreover have "mset (map gift (giftAssignments g)) = mset (participants g)"
  proof -
    have "distinct (map gift (giftAssignments g))"
      and "set (map gift (giftAssignments g)) = set (participants g)"
      using li C by (simp_all add: log_inv_def)
    with assms(2) show ?thesis using set_eq_iff_mset_eq_distinct by blast
  qed
  moreover from li have "list_all (\<lambda>a. player a \<noteq> gift a) (giftAssignments g)"
    by (simp add: log_inv_def list_all_iff)
  ultimately show ?thesis by (simp add: derangement_log_def)
qed

section \<open>Correctness of the game\<close>

text \<open>
  C2: When the summary is shown, on a roster without duplicate names, the log is a
  complete and consistent assignment: every participant appears exactly once as a
  player and exactly once as a gift owner (the log is a permutation of the roster in
  both columns), and nobody receives their own gift.
\<close>

theorem summary_is_derangement:
  assumes "reachable u" and "distinct (participants (game u))" and "screen u = SummaryModal"
  shows "mset (map player (giftAssignments (game u))) = mset (participants (game u))
    \<and> mset (map gift (giftAssignments (game u))) = mset (participants (game u))
    \<and> (\<forall>a \<in> set (giftAssignments (game u)). player a \<noteq> gift a)"
proof -
  from assms have "started u" by (simp add: reachable_not_board_started)
  with assms have inv: "game_inv (game u)" "screen_inv u" by (simp_all add: reachable_started_inv)
  with assms(3) have "complete (game u)" by (simp add: screen_inv_def)
  from complete_derangement [OF inv(1) assms(2) this]
  show ?thesis by (simp add: derangement_log_def list_all_iff)
qed

theorem summary_is_derangement_witness:
  "mset (map player (giftAssignments (game (the (run page_loaded cycle_run)))))
     = mset [''A'', ''B'', ''C'']
   \<and> mset (map gift (giftAssignments (game (the (run page_loaded cycle_run)))))
     = mset [''A'', ''B'', ''C'']
   \<and> list_all (\<lambda>a. player a \<noteq> gift a) (giftAssignments (game (the (run page_loaded cycle_run))))"
proof -
  let ?u = "the (run page_loaded cycle_run)"
  have r: "reachable ?u" using cycle_final reachable_run by metis
  have d: "distinct (participants (game ?u))" using cycle_final by simp
  have sc: "screen ?u = SummaryModal" using cycle_final by simp
  show ?thesis using summary_is_derangement [OF r d sc] cycle_final by (simp add: list_all_iff)
qed

text \<open>
  C3: In every reachable state on a roster without duplicate names, the players of
  the log are exactly the played participants in the order they played: at most one
  entry per player, and only participants who have spun have one.
\<close>

theorem log_players_are_played:
  assumes "reachable u" and "distinct (participants (game u))"
  shows "map player (giftAssignments (game u)) = playedParticipants (game u)
    \<and> distinct (playedParticipants (game u))
    \<and> set (playedParticipants (game u)) \<subseteq> set (participants (game u))"
  using reachable_log_inv [OF assms] by (simp add: log_inv_def)

theorem log_players_are_played_witness:
  "map player (giftAssignments (game (the (run page_loaded cycle_run))))
     = playedParticipants (game (the (run page_loaded cycle_run)))
   \<and> distinct (playedParticipants (game (the (run page_loaded cycle_run))))
   \<and> set (playedParticipants (game (the (run page_loaded cycle_run))))
     \<subseteq> set (participants (game (the (run page_loaded cycle_run))))"
proof -
  let ?u = "the (run page_loaded cycle_run)"
  have r: "reachable ?u" using cycle_final reachable_run by metis
  have d: "distinct (participants (game ?u))" using cycle_final by simp
  show ?thesis by (rule log_players_are_played [OF r d])
qed

text \<open>
  C4: In every reachable state on a roster without duplicate names, each gift owner
  appears at most once in the gift column of the log, the gift column holds exactly
  the claimed participants, and only participants are claimed: the swap correction
  never duplicates a gift.
\<close>

theorem gifts_claimed_once:
  assumes "reachable u" and "distinct (participants (game u))"
  shows "distinct (map gift (giftAssignments (game u)))
    \<and> set (map gift (giftAssignments (game u))) = set (claimedGifts (game u))
    \<and> set (claimedGifts (game u)) \<subseteq> set (participants (game u))"
  using reachable_log_inv [OF assms] by (simp add: log_inv_def)

theorem gifts_claimed_once_witness:
  "distinct (map gift (giftAssignments (game (the (run page_loaded cycle_run)))))
   \<and> set (map gift (giftAssignments (game (the (run page_loaded cycle_run)))))
     = set (claimedGifts (game (the (run page_loaded cycle_run))))
   \<and> set (claimedGifts (game (the (run page_loaded cycle_run))))
     \<subseteq> set (participants (game (the (run page_loaded cycle_run))))"
proof -
  let ?u = "the (run page_loaded cycle_run)"
  have r: "reachable ?u" using cycle_final reachable_run by metis
  have d: "distinct (participants (game ?u))" using cycle_final by simp
  show ?thesis by (rule gifts_claimed_once [OF r d])
qed

text \<open>
  C5: In every reachable state on a roster without duplicate names, no entry of the
  log gives a player their own gift, swaps included.
\<close>

theorem no_self_gift:
  assumes "reachable u" and "distinct (participants (game u))"
  shows "\<forall>a \<in> set (giftAssignments (game u)). player a \<noteq> gift a"
  using reachable_log_inv [OF assms] by (simp add: log_inv_def)

theorem no_self_gift_witness:
  "list_all (\<lambda>a. player a \<noteq> gift a) (giftAssignments (game (the (run page_loaded cycle_run))))"
proof -
  let ?u = "the (run page_loaded cycle_run)"
  have r: "reachable ?u" using cycle_final reachable_run by metis
  have d: "distinct (participants (game ?u))" using cycle_final by simp
  show ?thesis using no_self_gift [OF r d] by (simp add: list_all_iff)
qed


text \<open>
  C6: On a roster without duplicate names no event of a reachable page ever raises
  the 'no other players' alert of \<^verbatim>\<open>startSpin\<close>: the spec's DeadlockError cannot
  occur.
\<close>

theorem no_spin_deadlock:
  assumes "reachable u" and "distinct (participants (game u))"
    and "dispatch e u = Some (u', a)"
  shows "a \<noteq> Some NoOtherPlayers"
proof (cases "started u")
  case True
  show ?thesis
  proof (cases "roster_frozen e u")
    case True
    with \<open>started u\<close> assms reachable_started_inv [of u] show ?thesis
      using started_dispatch_inv [of u e u' a] by blast
  next
    case False
    with assms(3) show ?thesis
      by (cases e) (auto simp: roster_frozen_def)
  qed
next
  case False
  with assms(1) have "setup_inv u" by (rule reachable_started_screen)
  with assms(3) show ?thesis
    by (cases e) (auto simp: setup_inv_def startGame_def onSpace_def split: if_splits)
qed

theorem no_spin_deadlock_witness:
  "snd (the (dispatch ClickSpin (the (run page_loaded (swap_prefix @ [ClickSelect ''C''])))))
   \<noteq> Some NoOtherPlayers"
proof -
  let ?u = "the (run page_loaded (swap_prefix @ [ClickSelect ''C'']))"
  have run: "run page_loaded (swap_prefix @ [ClickSelect ''C'']) = Some ?u"
    and fr: "frozen_run page_loaded (swap_prefix @ [ClickSelect ''C''])"
    and d: "distinct (participants (game ?u))"
    and sp: "dispatch ClickSpin ?u = Some (the (dispatch ClickSpin ?u))"
    by (simp_all add: swap_prefix_def run_eval roster_frozen_def)
  have r: "reachable ?u" using reachable_run [OF fr run] .
  obtain u' a where "the (dispatch ClickSpin ?u) = (u', a)" by (cases "the (dispatch ClickSpin ?u)")
  with no_spin_deadlock [OF r d, of ClickSpin u' a] sp show ?thesis by simp
qed


lemma reachable_spinning_inv:
  assumes "reachable u" and "distinct (participants (game u))" and "isSpinning u"
  shows "game_inv (game u) \<and> screen_inv u \<and> chain_inv (game u) \<and> \<not> complete (game u)"
proof -
  from assms(1,3) have "started u" using reachable_started_screen [of u] by (auto simp: setup_inv_def)
  with assms have inv: "game_inv (game u)" "screen_inv u" by (simp_all add: reachable_started_inv)
  with assms(3) have "\<not> complete (game u)" by (simp add: screen_inv_def)
  with inv show ?thesis by (simp add: game_inv_def)
qed

lemma swap_fixture:
  "run page_loaded (swap_prefix @ [ClickSelect ''C'', ClickSpin]) =
     Some (the (run page_loaded (swap_prefix @ [ClickSelect ''C'', ClickSpin])))
   \<and> reachable (the (run page_loaded (swap_prefix @ [ClickSelect ''C'', ClickSpin])))"
  using swap_states reachable_run by metis

text \<open>
  C12: The edge case the spec leaves open, a swap victim without an entry in the log,
  never arises on a roster without duplicate names: whenever a spin runs in swap
  mode, every name on the wheel already holds an entry.
\<close>

theorem swap_victim_has_entry:
  assumes "reachable u" and "distinct (participants (game u))" and "isSpinning u"
    and "currentPlayer (game u) = Some c" and "normal_wheel (game u) c = []"
    and "v \<in> set (swap_wheel (game u) c)"
  shows "find (\<lambda>a. player a = v) (giftAssignments (game u)) \<noteq> None"
proof -
  from reachable_spinning_inv [OF assms(1-3)]
  have "log_inv (game u)" "chain_inv (game u)" by (simp_all add: game_inv_def)
  from swap_victim_found [OF this assms(4-6)] show ?thesis .
qed

theorem swap_victim_has_entry_witness:
  "find (\<lambda>a. player a = ''A'')
     (giftAssignments (game (the (run page_loaded (swap_prefix @ [ClickSelect ''C'', ClickSpin])))))
   \<noteq> None"
proof -
  let ?u = "the (run page_loaded (swap_prefix @ [ClickSelect ''C'', ClickSpin]))"
  have r: "reachable ?u" using swap_fixture by simp
  from swap_states have "distinct (participants (game ?u))" "isSpinning ?u"
    "currentPlayer (game ?u) = Some ''C''" "normal_wheel (game ?u) ''C'' = []"
    "''A'' \<in> set (swap_wheel (game ?u) ''C'')" by simp_all
  from swap_victim_has_entry [OF r this] show ?thesis .
qed

text \<open>
  C11: Swap mode only happens on the last spin: on a roster without duplicate names,
  when the wheel of the current player falls back to swap mode, everybody else has
  already played, and finishing the spin, whatever slice wins, completes the game,
  so closing the result shows the summary.
\<close>

theorem swap_is_last_spin:
  assumes "reachable u" and "distinct (participants (game u))" and "isSpinning u"
    and "currentPlayer (game u) = Some c" and "normal_wheel (game u) c = []"
  shows "set (playedParticipants (game u)) = set (participants (game u)) - {c}
    \<and> (\<exists>u'. finishSpin r u = Some u' \<and> complete (game u') \<and> screen (closeModal u') = SummaryModal)"
proof -
  let ?g = "game u"
  from reachable_spinning_inv [OF assms(1-3)]
  have inv: "log_inv ?g" "chain_inv ?g" "2 \<le> length (participants ?g)"
    by (simp_all add: game_inv_def)
  from reachable_spinning_inv [OF assms(1-3)] have "game_inv ?g" "screen_inv u" by simp_all
  from spin_finishes [OF this assms(2,3), of r] obtain g' where h: "handleSpinComplete r ?g = Some g'"
    by blast
  from swap_spin_result [OF inv(1,2) assms(2,4,5) h] have "complete g'" by simp
  moreover have "finishSpin r u = Some (u\<lparr>isSpinning := False, game := g', screen := WinnerModal,
      resultsList := handleSpinComplete_results r (game u) (resultsList u)\<rparr>)"
    using h by (simp add: finishSpin_def)
  ultimately have "\<exists>u'. finishSpin r u = Some u' \<and> complete (game u') \<and>
      screen (closeModal u') = SummaryModal"
    by (simp add: closeModal_def complete_def)
  with swap_case_shape(1) [OF inv(1,2) assms(4,5)] show ?thesis by simp
qed

theorem swap_is_last_spin_witness:
  "set (playedParticipants (game (the (run page_loaded (swap_prefix @ [ClickSelect ''C'', ClickSpin])))))
     = {''A'', ''B'', ''C''} - {''C''}
   \<and> (\<exists>u'. finishSpin 1 (the (run page_loaded (swap_prefix @ [ClickSelect ''C'', ClickSpin]))) = Some u'
        \<and> complete (game u') \<and> screen (closeModal u') = SummaryModal)"
proof -
  let ?u = "the (run page_loaded (swap_prefix @ [ClickSelect ''C'', ClickSpin]))"
  have r: "reachable ?u" using swap_fixture by simp
  from swap_states have "distinct (participants (game ?u))" "isSpinning ?u"
    "currentPlayer (game ?u) = Some ''C''" "normal_wheel (game ?u) ''C'' = []"
    and ps: "participants (game ?u) = [''A'', ''B'', ''C'']" by simp_all
  from swap_is_last_spin [OF r this(1-4), of 1] ps show ?thesis by simp
qed

text \<open>
  C13: On a roster without duplicate names the player-selection modal is never shown
  empty (the code's 'no selectable players' message is unreachable): there is always
  an unclaimed participant to choose.
\<close>

theorem selection_has_candidates:
  assumes "reachable u" and "distinct (participants (game u))" and "screen u = SelectModal"
  shows "populatePlayerSelection (game u) \<noteq> []"
proof -
  from assms have "started u" by (simp add: reachable_not_board_started)
  with assms have inv: "game_inv (game u)" "screen_inv u" by (simp_all add: reachable_started_inv)
  with assms(3) have "currentPlayer (game u) = None" "\<not> complete (game u)"
    by (simp_all add: screen_inv_def)
  from select_candidates [OF inv(1) assms(2) this] show ?thesis .
qed

theorem selection_has_candidates_witness:
  "populatePlayerSelection (game (the (run page_loaded swap_prefix))) \<noteq> []"
proof -
  let ?u = "the (run page_loaded swap_prefix)"
  have r: "reachable ?u" using swap_states reachable_run by metis
  from swap_states have "distinct (participants (game ?u))" "screen ?u = SelectModal" by simp_all
  from selection_has_candidates [OF r this] show ?thesis .
qed

text \<open>
  Bounds: in every reachable state on a roster without duplicate names there is
  one log entry per played participant and at most one per participant, so a game
  takes at most as many spins as there are participants.
\<close>

theorem spins_bounded:
  assumes "reachable u" and "distinct (participants (game u))"
  shows "length (giftAssignments (game u)) = length (playedParticipants (game u))
    \<and> length (playedParticipants (game u)) \<le> length (participants (game u))"
proof -
  from reachable_log_inv [OF assms] have li: "log_inv (game u)" .
  then have "length (giftAssignments (game u)) = length (playedParticipants (game u))"
    by (metis length_map log_inv_def)
  moreover from li have "length (playedParticipants (game u)) \<le> length (remdups (participants (game u)))"
    by (intro distinct_length_le_subset) (simp_all add: log_inv_def)
  ultimately show ?thesis using assms(2) by (simp add: distinct_remdups_id)
qed

theorem spins_bounded_witness:
  "length (giftAssignments (game (the (run page_loaded cycle_run))))
     = length (playedParticipants (game (the (run page_loaded cycle_run))))
   \<and> length (playedParticipants (game (the (run page_loaded cycle_run)))) \<le> 3"
proof -
  let ?u = "the (run page_loaded cycle_run)"
  have r: "reachable ?u" using cycle_final reachable_run by metis
  from cycle_final have d: "distinct (participants (game ?u))"
    and ps: "participants (game ?u) = [''A'', ''B'', ''C'']" by simp_all
  from spins_bounded [OF r d] ps show ?thesis by simp
qed


lemma handleSpinClick_game: "game (fst (handleSpinClick u)) = game u"
  by (simp add: handleSpinClick_def startSpin_def Let_def split: option.splits)

text \<open>
  C14: The played and claimed arrays only ever grow: every event leaves the old
  array as a prefix of the new one (the spec's PlayedSet and ClaimedSet never shrink).
\<close>

theorem arrays_only_grow:
  assumes "dispatch e u = Some (u', a)"
  shows "prefix (playedParticipants (game u)) (playedParticipants (game u'))
    \<and> prefix (claimedGifts (game u)) (claimedGifts (game u'))"
proof (cases e)
  case (SpinFinished r)
  with assms obtain g' where "handleSpinComplete r (game u) = Some g'" and "game u' = g'"
    by (auto simp: finishSpin_def split: if_splits option.splits)
  then show ?thesis using handleSpinComplete_grows by blast
next
  case PressSpace
  with assms onSpace_frame [of u] show ?thesis by auto
next
  case ClickSpin
  with assms handleSpinClick_game [of u] show ?thesis by (auto split: if_splits)
qed (use assms in \<open>auto simp: updateParticipants_def resetDefaults_def loadParticipants_def
  startGame_def clickPlayer_def selectPlayer_def closeModal_def closeSummary_def Let_def
  split: if_splits\<close>)

theorem arrays_only_grow_witness:
  "prefix (playedParticipants (game (the (run page_loaded (swap_prefix @ [ClickSelect ''C'', ClickSpin])))))
     (playedParticipants (game (fst (the (dispatch (SpinFinished 0)
        (the (run page_loaded (swap_prefix @ [ClickSelect ''C'', ClickSpin]))))))))
   \<and> prefix (claimedGifts (game (the (run page_loaded (swap_prefix @ [ClickSelect ''C'', ClickSpin])))))
     (claimedGifts (game (fst (the (dispatch (SpinFinished 0)
        (the (run page_loaded (swap_prefix @ [ClickSelect ''C'', ClickSpin]))))))))"
proof -
  let ?u = "the (run page_loaded (swap_prefix @ [ClickSelect ''C'', ClickSpin]))"
  have d: "dispatch (SpinFinished 0) ?u = Some (the (dispatch (SpinFinished 0) ?u))"
    by (simp add: swap_prefix_def run_eval)
  obtain u' a where "the (dispatch (SpinFinished 0) ?u) = (u', a)"
    by (cases "the (dispatch (SpinFinished 0) ?u)")
  with arrays_only_grow [of "SpinFinished 0" ?u u' a] d show ?thesis by simp
qed

end
