(* ===== verification/Liveness.thy ===== *)
theory Liveness
  imports Safety
begin

text \<open>
  Progress of the page: a user who always takes the action the page offers (pick
  the first name of the selection modal, press the spin button, close the result)
  finishes every started game on a roster without duplicate names, whatever slices
  the wheel stops on. The driver \<open>play\<close> runs on fuel; the theorems show how much
  fuel is enough, so that the game ends with the summary modal open.
\<close>

section \<open>The driver\<close>

text \<open>
  The action a user takes on a page; \<open>pick k\<close> is the slice the wheel stops on at
  the spin that follows \<open>k\<close> completed spins.
\<close>

definition next_event :: "(nat \<Rightarrow> nat) \<Rightarrow> page \<Rightarrow> event option" where
  "next_event pick u =
     (if isSpinning u then Some (SpinFinished (pick (length (playedParticipants (game u)))))
      else case screen u of
        SelectModal \<Rightarrow>
          (case populatePlayerSelection (game u) of [] \<Rightarrow> None | n # _ \<Rightarrow> Some (ClickSelect n))
      | WinnerModal \<Rightarrow> Some ClickCloseWinner
      | Board \<Rightarrow> (if spinDisabled u then None else Some ClickSpin)
      | SummaryModal \<Rightarrow> None)"

fun play :: "nat \<Rightarrow> (nat \<Rightarrow> nat) \<Rightarrow> page \<Rightarrow> page option" where
  "play 0 pick u = (if screen u = SummaryModal then Some u else None)"
| "play (Suc k) pick u =
     (if screen u = SummaryModal then Some u
      else case next_event pick u of
        None \<Rightarrow> None
      | Some e \<Rightarrow> (case dispatch e u of None \<Rightarrow> None | Some (u', a) \<Rightarrow> play k pick u'))"

text \<open>
  The potential that every step of the driver decreases: four units per participant
  still to spin, and within a round the phases result modal, selection modal, board
  with the spin button enabled, and running animation.
\<close>

definition phase :: "page \<Rightarrow> nat" where
  "phase u =
     (if isSpinning u then 0
      else case screen u of Board \<Rightarrow> 1 | SelectModal \<Rightarrow> 2 | WinnerModal \<Rightarrow> 3 | SummaryModal \<Rightarrow> 0)"

definition potential :: "page \<Rightarrow> nat" where
  "potential u =
     4 * (length (participants (game u)) - length (playedParticipants (game u))) + phase u"

definition live :: "page \<Rightarrow> bool" where
  "live u = (screen u = SummaryModal \<or> screen u = WinnerModal \<or> \<not> complete (game u))"

section \<open>Each step of the driver is offered and makes progress\<close>

lemma step_spinning:
  assumes "distinct (participants (game u))" and "game_inv (game u)" and "screen_inv u"
    and "isSpinning u"
  shows "\<exists>e u' a. next_event pick u = Some e \<and> dispatch e u = Some (u', a) \<and> roster_frozen e u
    \<and> live u' \<and> potential u' < potential u"
proof -
  let ?g = "game u" and ?r = "pick (length (playedParticipants (game u)))"
  from spin_finishes [OF assms(2,3,1,4), of ?r] obtain g' where h: "handleSpinComplete ?r ?g = Some g'"
    and len: "length (playedParticipants g') = Suc (length (playedParticipants ?g))" by blast
  from assms(3,4) have "\<not> complete ?g" by (simp add: screen_inv_def)
  then have lt: "length (playedParticipants ?g) < length (participants ?g)" by (simp add: complete_def)
  let ?u' = "u\<lparr>isSpinning := False, game := g', screen := WinnerModal,
      resultsList := handleSpinComplete_results ?r (game u) (resultsList u)\<rparr>"
  have "dispatch (SpinFinished ?r) u = Some (?u', None)"
    using assms(4) h by (simp add: finishSpin_def)
  moreover have "potential ?u' < potential u"
    using lt len assms(4) handleSpinComplete_participants [OF h]
    by (simp add: potential_def phase_def)
  ultimately show ?thesis
    using assms(4) by (auto simp: next_event_def live_def roster_frozen_def)
qed

lemma step_select:
  assumes "distinct (participants (game u))" and "game_inv (game u)" and "screen_inv u"
    and "screen u = SelectModal"
  shows "\<exists>e u' a. next_event pick u = Some e \<and> dispatch e u = Some (u', a) \<and> roster_frozen e u
    \<and> live u' \<and> potential u' < potential u"
proof -
  from assms(3,4) have s: "currentPlayer (game u) = None" "\<not> complete (game u)" "\<not> isSpinning u"
    by (simp_all add: screen_inv_def)
  from select_candidates [OF assms(2,1) s(1,2)] obtain n ns
    where p: "populatePlayerSelection (game u) = n # ns" by (cases "populatePlayerSelection (game u)") auto
  have "next_event pick u = Some (ClickSelect n)" using p s(3) assms(4) by (simp add: next_event_def)
  moreover have "dispatch (ClickSelect n) u = Some (clickPlayer n u, None)" using p assms(4) by simp
  moreover have "live (clickPlayer n u) \<and> potential (clickPlayer n u) < potential u"
    using s assms(4) by (simp add: live_def potential_def phase_def clickPlayer_def selectPlayer_def)
  ultimately show ?thesis by (auto simp: roster_frozen_def)
qed

lemma step_winner:
  assumes "screen_inv u" and "screen u = WinnerModal"
  shows "\<exists>e u' a. next_event pick u = Some e \<and> dispatch e u = Some (u', a) \<and> roster_frozen e u
    \<and> live u' \<and> potential u' < potential u"
proof -
  from assms have ns: "\<not> isSpinning u" by (simp add: screen_inv_def)
  have "live (closeModal u) \<and> potential (closeModal u) < potential u"
    using ns assms(2) by (simp add: live_def potential_def phase_def closeModal_def complete_def Let_def)
  moreover have "next_event pick u = Some ClickCloseWinner" using ns assms(2)
    by (simp add: next_event_def)
  ultimately show ?thesis using assms(2) by (auto simp: roster_frozen_def)
qed

lemma step_board:
  assumes "distinct (participants (game u))" and "game_inv (game u)" and "screen_inv u"
    and "screen u = Board" and "\<not> spinDisabled u"
  shows "\<exists>e u' a. next_event pick u = Some e \<and> dispatch e u = Some (u', a) \<and> roster_frozen e u
    \<and> live u' \<and> potential u' < potential u"
proof -
  from assms(3-5) have s: "\<not> complete (game u)" "\<not> isSpinning u" by (simp_all add: screen_inv_def)
  let ?u' = "u\<lparr>isSpinning := True, spinDisabled := True\<rparr>"
  from spinClick_result [OF assms(2,3,1,4,5)] assms(4,5)
  have "dispatch ClickSpin u = Some (?u', None)" by simp
  moreover have "live ?u' \<and> potential ?u' < potential u"
    using s assms(4) by (simp add: live_def potential_def phase_def)
  moreover have "next_event pick u = Some ClickSpin" using s assms(4,5) by (simp add: next_event_def)
  ultimately show ?thesis by (auto simp: roster_frozen_def)
qed

lemma live_step:
  assumes "distinct (participants (game u))" and "game_inv (game u)"
    and "screen_inv u" and "live u" and "screen u \<noteq> SummaryModal"
  shows "\<exists>e u' a. next_event pick u = Some e \<and> dispatch e u = Some (u', a) \<and> roster_frozen e u
    \<and> live u' \<and> potential u' < potential u"
proof (cases "isSpinning u")
  case True
  with assms show ?thesis by (rule_tac step_spinning) simp_all
next
  case False
  consider "screen u = SelectModal" | "screen u = WinnerModal"
    | "screen u = Board" "\<not> spinDisabled u" | "screen u = Board" "spinDisabled u"
    using assms(5) by (cases "screen u") auto
  then show ?thesis
  proof cases
    case 1
    with assms show ?thesis by (rule_tac step_select) simp_all
  next
    case 2
    with assms show ?thesis by (rule_tac step_winner) simp_all
  next
    case 3
    with assms show ?thesis by (rule_tac step_board) simp_all
  next
    case 4
    with False assms(3,4) show ?thesis by (simp add: screen_inv_def live_def)
  qed
qed

lemma phase_le: "phase u \<le> 3"
  by (simp add: phase_def split: screen.split)

lemma play_enough:
  assumes "reachable u" and "started u" and "distinct (participants (game u))" and "live u"
    and "potential u < k"
  shows "\<exists>u'. play k pick u = Some u' \<and> screen u' = SummaryModal \<and> reachable u' \<and> started u'
    \<and> participants (game u') = participants (game u)"
  using assms
proof (induction k arbitrary: u)
  case 0
  then show ?case by simp
next
  case (Suc k)
  show ?case
  proof (cases "screen u = SummaryModal")
    case True
    with Suc.prems show ?thesis by simp
  next
    case False
    from reachable_started_inv [OF Suc.prems(1,2,3)] have inv: "game_inv (game u)" "screen_inv u"
      by simp_all
    from live_step [OF Suc.prems(3) inv Suc.prems(4) False, of pick]
    obtain e v a where e: "next_event pick u = Some e" and d: "dispatch e u = Some (v, a)"
      and fr: "roster_frozen e u" and lv: "live v" and lt: "potential v < potential u" by blast
    have rv: "reachable v" using Suc.prems(1) d fr by (rule reachable.event)
    from started_frame [OF Suc.prems(2) d fr]
    have sv: "started v" and pv: "participants (game v) = participants (game u)" by simp_all
    from Suc.IH [OF rv sv _ lv] Suc.prems(3,5) pv lt
    obtain u' where "play k pick v = Some u'" "screen u' = SummaryModal" "reachable u'" "started u'"
      "participants (game u') = participants (game u)" by auto
    with False e d show ?thesis by simp
  qed
qed

text \<open>
  C9: Liveness: every started game on a roster without duplicate names that is not
  yet complete reaches the summary, whatever slices the wheel stops on, when the user
  takes the offered actions; four driver steps per remaining player (plus four) are
  enough, and the game is then complete.
\<close>

theorem game_always_completes:
  assumes "reachable u" and "started u" and "distinct (participants (game u))"
    and "\<not> complete (game u)"
  shows "\<exists>u'. play (4 * (length (participants (game u)) - length (playedParticipants (game u))) + 4)
      pick u = Some u'
    \<and> screen u' = SummaryModal \<and> complete (game u') \<and> reachable u'"
proof -
  have "live u" using assms(4) by (simp add: live_def)
  moreover have "potential u < 4 * (length (participants (game u)) - length (playedParticipants (game u))) + 4"
    using phase_le [of u] by (simp add: potential_def)
  ultimately obtain u' where u': "play (4 * (length (participants (game u))
      - length (playedParticipants (game u))) + 4) pick u = Some u'"
    "screen u' = SummaryModal" "reachable u'" "started u'"
    "participants (game u') = participants (game u)"
    using play_enough [OF assms(1-3)] by blast
  with assms(3) have "screen_inv u'" using reachable_started_inv [of u'] by simp
  with u' show ?thesis by (auto simp: screen_inv_def)
qed

theorem game_always_completes_witness:
  "\<exists>u'. play (4 * (3 - 0) + 4) (\<lambda>k. 0) (the (run page_loaded (take 3 cycle_run))) = Some u'
     \<and> screen u' = SummaryModal \<and> complete (game u') \<and> reachable u'"
proof -
  let ?u = "the (run page_loaded (take 3 cycle_run))"
  have run: "run page_loaded (take 3 cycle_run) = Some ?u"
    and fr: "frozen_run page_loaded (take 3 cycle_run)"
    and s: "started ?u" "distinct (participants (game ?u))" "\<not> complete (game ?u)"
    and n: "length (participants (game ?u)) = 3" "length (playedParticipants (game ?u)) = 0"
    by (simp_all add: cycle_run_def run_eval roster_frozen_def complete_def)
  have r: "reachable ?u" using reachable_run [OF fr run] .
  from game_always_completes [OF r s, of "\<lambda>k. 0"] n show ?thesis by simp
qed

end
