(* ===== verification/Names.thy ===== *)
theory Names
  imports Safety
begin

text \<open>
  The typing of the state: every name the game holds (played, claimed, available,
  current player, both columns of the log) is a name of the roster, and every name
  of the roster is a well-formed line of the text area (non-empty, trimmed, without
  a newline). Unlike the invariants of \<open>Safety\<close> this needs no assumption on
  duplicate names: it holds on every reachable page.
\<close>

definition names_typed :: "game \<Rightarrow> bool" where
  "names_typed g =
     (list_all wf_name (participants g)
      \<and> set (playedParticipants g) \<subseteq> set (participants g)
      \<and> set (claimedGifts g) \<subseteq> set (participants g)
      \<and> set (availableParticipants g) \<subseteq> set (participants g)
      \<and> set (map player (giftAssignments g)) \<subseteq> set (participants g)
      \<and> set (map gift (giftAssignments g)) \<subseteq> set (participants g)
      \<and> set_option (currentPlayer g) \<subseteq> set (participants g))"

section \<open>A spin keeps the names typed\<close>

lemma gifts_set_first_gift:
  "set (map gift (set_first_gift v x as)) \<subseteq> insert x (set (map gift as))"
  by (induction as) auto

lemma swap_gifts_names:
  assumes "v \<in> R" and "c \<in> R" and "set (map gift as) \<subseteq> R"
  shows "snd (swap_gifts c v as) \<in> R \<and> set (map gift (fst (swap_gifts c v as))) \<subseteq> R"
proof (cases "find (\<lambda>a. player a = v) as")
  case None
  with assms show ?thesis by (simp add: swap_gifts_def)
next
  case (Some va)
  from find_player_Some [OF Some] have "gift va \<in> R" using assms(3) by force
  moreover have "set (map gift (set_first_gift v c as)) \<subseteq> R"
    using gifts_set_first_gift [of v c as] assms(2,3) by blast
  ultimately show ?thesis using Some by (simp add: swap_gifts_def)
qed

lemma next_player_names: "set_option (next_player w x) \<subseteq> {x}"
  by (simp add: next_player_def split: prod.splits)

lemma names_typed_record:
  assumes "names_typed g" and "c \<in> set (participants g)" and "go \<in> set (participants g)"
    and "set (map player as') = set (map player (giftAssignments g))"
    and "set (map gift as') \<subseteq> set (participants g)" and "set_option cur \<subseteq> set (participants g)"
  shows "names_typed (record_result sw c go (g\<lparr>currentPlayer := cur, giftAssignments := as'\<rparr>))"
  using assms by (auto simp: names_typed_def)

lemma spin_names_typed:
  assumes "names_typed g" and "handleSpinComplete r g = Some g'"
  shows "names_typed g'"
proof -
  from assms(2) obtain c where c: "currentPlayer g = Some c" and ne: "fst (wheelNames g c) \<noteq> []"
    by (rule handleSpinComplete_Some_cases)
  from assms(1) c have cR: "c \<in> set (participants g)" by (simp add: names_typed_def)
  from assms(1) have G: "set (map gift (giftAssignments g)) \<subseteq> set (participants g)"
    by (simp add: names_typed_def)
  show ?thesis
  proof (cases "normal_wheel g c = []")
    case True
    with ne have sw: "swap_wheel g c \<noteq> []" by simp
    let ?v = "swap_wheel g c ! winnerIndex r (swap_wheel g c)"
    have "?v \<in> set (participants g)" using winner_in_wheel [OF sw] by (simp add: swap_wheel_def)
    from swap_gifts_names [OF this cR G] have sg: "snd (swap_gifts c ?v (giftAssignments g)) \<in> set (participants g)"
      "set (map gift (fst (swap_gifts c ?v (giftAssignments g)))) \<subseteq> set (participants g)" by simp_all
    have "names_typed (record_result True c (snd (swap_gifts c ?v (giftAssignments g)))
      (g\<lparr>currentPlayer := Some (snd (swap_gifts c ?v (giftAssignments g))),
         giftAssignments := fst (swap_gifts c ?v (giftAssignments g))\<rparr>))"
      using sg by (intro names_typed_record [OF assms(1) cR]) simp_all
    with assms(2) handleSpinComplete_swap [OF c True sw, of r] show ?thesis by (simp add: Let_def)
  next
    case False
    let ?w = "normal_wheel g c ! winnerIndex r (normal_wheel g c)"
    have wR: "?w \<in> set (participants g)" using winner_in_wheel [OF False] by (simp add: normal_wheel_def)
    have "names_typed (record_result False c ?w
      (g\<lparr>currentPlayer := next_player (winner_warnings g False ?w) ?w, giftAssignments := giftAssignments g\<rparr>))"
      using wR next_player_names [of "winner_warnings g False ?w" ?w] G
      by (intro names_typed_record [OF assms(1) cR wR]) auto
    with assms(2) handleSpinComplete_normal [OF c False, of r] show ?thesis by (simp add: Let_def)
  qed
qed

section \<open>Every reachable page\<close>

lemma parse_names_typed:
  "playedParticipants g = [] \<Longrightarrow> claimedGifts g = [] \<Longrightarrow> giftAssignments g = [] \<Longrightarrow>
   currentPlayer g = None \<Longrightarrow> names_typed (updateParticipants t g)"
  by (auto simp: names_typed_def updateParticipants_def Let_def list_all_iff intro: wf_parse_names)

lemma setup_names_typed: "setup_inv u \<Longrightarrow> names_typed (updateParticipants t (game u))"
  by (rule parse_names_typed) (simp_all add: setup_inv_def)

lemma populate_subset: "set (populatePlayerSelection g) \<subseteq> set (participants g)"
  by (auto simp: populatePlayerSelection_def)

lemma dispatch_names_typed:
  assumes "reachable u" and "names_typed (game u)" and "dispatch e u = Some (u', a)"
    and "roster_frozen e u"
  shows "names_typed (game u')"
proof (cases e)
  case (EditNames t)
  with assms(4) have "\<not> started u" by (simp add: roster_frozen_def)
  with assms(1) have "setup_inv u" by (rule reachable_started_screen)
  with EditNames assms(3) show ?thesis by (auto simp: setup_names_typed)
next
  case (ResetDefaults b)
  show ?thesis
  proof (cases b)
    case True
    with ResetDefaults assms(4) have "\<not> started u" by (simp add: roster_frozen_def)
    with assms(1) have "setup_inv u" by (rule reachable_started_screen)
    with True ResetDefaults assms(3) show ?thesis
      by (auto simp: resetDefaults_def loadParticipants_def setup_names_typed)
  next
    case False
    with ResetDefaults assms(2,3) show ?thesis by (auto simp: resetDefaults_def)
  qed
next
  case (ClickSelect n)
  with assms(3) have "n \<in> set (populatePlayerSelection (game u))" and "u' = clickPlayer n u"
    by (auto split: if_splits)
  with assms(2) populate_subset [of "game u"] show ?thesis
    by (auto simp: names_typed_def clickPlayer_def selectPlayer_def)
next
  case (SpinFinished r)
  with assms(3) obtain g' where "handleSpinComplete r (game u) = Some g'" and "game u' = g'"
    by (auto simp: finishSpin_def split: if_splits option.splits)
  with assms(2) show ?thesis using spin_names_typed by blast
next
  case ClickSpin
  with assms(2,3) handleSpinClick_game [of u] show ?thesis by (auto split: if_splits)
next
  case PressSpace
  with assms(2,3) onSpace_frame [of u] show ?thesis by auto
qed (use assms(2,3) in \<open>auto simp: startGame_def closeModal_def closeSummary_def Let_def
  split: if_splits\<close>)

lemma reachable_names_typed: "reachable u \<Longrightarrow> names_typed (game u)"
proof (induction rule: reachable.induct)
  case loaded
  show ?case
    by (simp add: page_loaded_def loadParticipants_def parse_names_typed empty_game_def)
next
  case (event u e u' a)
  from dispatch_names_typed [OF event.hyps(1) event.IH event.hyps(2,3)] show ?case .
qed

lemma reachable_names_nonempty:
  "reachable u \<Longrightarrow> \<forall>n \<in> set (participants (game u)). n \<noteq> []"
  using reachable_names_typed [of u] by (auto simp: names_typed_def list_all_iff wf_name_def)

text \<open>
  C7: Typing of the state: on every reachable page, with or without duplicate
  names, every name the game state holds is a name of the roster, and every roster
  name is a trimmed, non-empty line of the text area.
\<close>

theorem names_well_typed:
  assumes "reachable u"
  shows "names_typed (game u)"
  using assms by (rule reachable_names_typed)

theorem names_well_typed_witness: "names_typed (game (the (run page_loaded (take 3 cycle_run))))"
proof -
  have "run page_loaded (take 3 cycle_run) = Some (the (run page_loaded (take 3 cycle_run)))"
    and "frozen_run page_loaded (take 3 cycle_run)"
    by (simp_all add: cycle_run_def run_eval roster_frozen_def)
  then have "reachable (the (run page_loaded (take 3 cycle_run)))" by (rule_tac reachable_run) simp_all
  then show ?thesis by (rule names_well_typed)
qed

end
