(* ===== verification/Display.thy ===== *)
theory Display
  imports Names
begin

text \<open>
  The results list on the page against the log. Every normal spin adds the item the
  log gains, so before the game is complete the list shows the log most recent first.
  A swap, which only happens at the last spin, makes \<^verbatim>\<open>updateResultInList\<close> update
  the first item mentioning the victim, which need not be the victim's own item.
\<close>

definition display_ok :: "page \<Rightarrow> bool" where
  "display_ok u = (map row_pair (resultsList u) = log_pairs (giftAssignments (game u))
     \<and> list_all row_plain (resultsList u))"

text \<open>The three counters \<^verbatim>\<open>updateCountDisplay\<close> writes: participants, played, remaining.\<close>

definition updateCountDisplay :: "game \<Rightarrow> nat \<times> nat \<times> nat" where
  "updateCountDisplay g =
     (length (participants g), length (playedParticipants g), length (availableParticipants g))"

section \<open>Frames\<close>

lemma nonspin_frame:
  assumes "dispatch e u = Some (u', a)" and "\<And>r. e \<noteq> SpinFinished r"
  shows "resultsList u' = resultsList u \<and> giftAssignments (game u') = giftAssignments (game u)
    \<and> playedParticipants (game u') = playedParticipants (game u)"
  using assms onSpace_frame [of u]
  by (cases e) (auto simp: updateParticipants_def resetDefaults_def loadParticipants_def
      startGame_def clickPlayer_def selectPlayer_def handleSpinClick_def startSpin_def
      closeModal_def closeSummary_def onSpace_def Let_def split: if_splits option.splits)

section \<open>The list follows the log until the last spin\<close>

lemma spin_display:
  assumes "reachable u" and "distinct (participants (game u))" and "isSpinning u"
    and "display_ok u" and "finishSpin r u = Some u'" and "\<not> complete (game u')"
  shows "display_ok u'"
proof -
  let ?g = "game u"
  from reachable_spinning_inv [OF assms(1-3)]
  have inv: "game_inv ?g" "screen_inv u" "chain_inv ?g" by simp_all
  from inv(2) assms(3) obtain c where c: "currentPlayer ?g = Some c" by (auto simp: screen_inv_def)
  from assms(5) obtain g' where h: "handleSpinComplete r ?g = Some g'"
    and u': "u' = u\<lparr>isSpinning := False, game := g', screen := WinnerModal,
      resultsList := handleSpinComplete_results r ?g (resultsList u)\<rparr>"
    by (auto simp: finishSpin_def split: option.splits)
  show ?thesis
  proof (cases "normal_wheel ?g c = []")
    case True
    from inv(1) have "log_inv ?g" by (simp add: game_inv_def)
    from swap_spin_result [OF this inv(3) assms(2) c True h] have "complete g'" by simp
    with assms(6) u' show ?thesis by simp
  next
    case False
    have cR: "c \<in> set (participants ?g)" using inv(3) c by (simp add: chain_inv_def)
    from results_track_normal [OF c False h reachable_names_nonempty [OF assms(1)] cR] assms(4) u'
    show ?thesis by (simp add: display_ok_def results_normal [OF c False])
  qed
qed

lemma reachable_display:
  "reachable u \<Longrightarrow>
   (started u \<longrightarrow> distinct (participants (game u)) \<longrightarrow> \<not> complete (game u) \<longrightarrow> display_ok u)
   \<and> (\<not> started u \<longrightarrow> resultsList u = [])"
proof (induction rule: reachable.induct)
  case loaded
  then show ?case by (simp add: page_loaded_def)
next
  case (event u e u' a)
  show ?case
  proof (cases "\<exists>r. e = SpinFinished r")
    case True
    then obtain r where e: "e = SpinFinished r" by blast
    with event.hyps(2) have sp: "isSpinning u" and f: "finishSpin r u = Some u'"
      by (auto split: if_splits)
    from event.hyps(1) sp have st: "started u"
      using reachable_started_screen [of u] by (auto simp: setup_inv_def)
    from started_frame [OF st event.hyps(2,3)]
    have st': "started u'" and P: "participants (game u') = participants (game u)" by simp_all
    have "display_ok u'" if d: "distinct (participants (game u))" and nc: "\<not> complete (game u')"
    proof -
      from reachable_spinning_inv [OF event.hyps(1) d sp] have "\<not> complete (game u)" by simp
      with event.IH st d have "display_ok u" by simp
      from spin_display [OF event.hyps(1) d sp this f nc] show ?thesis .
    qed
    with st' P show ?thesis by simp
  next
    case False
    then have "\<And>r. e \<noteq> SpinFinished r" by blast
    from nonspin_frame [OF event.hyps(2) this]
    have fr: "resultsList u' = resultsList u" "giftAssignments (game u') = giftAssignments (game u)"
      "playedParticipants (game u') = playedParticipants (game u)" by simp_all
    show ?thesis
    proof (cases "started u")
      case True
      from started_frame [OF True event.hyps(2,3)]
      have "started u'" and "participants (game u') = participants (game u)" by simp_all
      with fr event.IH True show ?thesis by (simp add: display_ok_def complete_def)
    next
      case False
      with event.IH have "resultsList u = []" by simp
      moreover from reachable_started_screen [OF event.hyps(1) False]
      have "giftAssignments (game u) = []" by (simp add: setup_inv_def)
      ultimately show ?thesis using fr by (simp add: display_ok_def log_pairs_def)
    qed
  qed
qed

text \<open>
  C15: Until the game is complete the results list beside the wheel shows exactly the
  log, most recent first: one item per spin with the player and the gift owner
  (roster without duplicate names).
\<close>

theorem results_list_shows_log:
  assumes "reachable u" and "distinct (participants (game u))" and "\<not> complete (game u)"
  shows "map row_pair (resultsList u) = log_pairs (giftAssignments (game u))"
proof (cases "started u")
  case True
  with reachable_display [OF assms(1)] assms(2,3) show ?thesis by (simp add: display_ok_def)
next
  case False
  with reachable_display [OF assms(1)] have "resultsList u = []" by simp
  moreover from reachable_started_screen [OF assms(1) False]
  have "giftAssignments (game u) = []" by (simp add: setup_inv_def)
  ultimately show ?thesis by (simp add: log_pairs_def)
qed

theorem results_list_shows_log_witness:
  "map row_pair (resultsList (the (run page_loaded swap_prefix)))
   = log_pairs (giftAssignments (game (the (run page_loaded swap_prefix))))"
proof -
  let ?u = "the (run page_loaded swap_prefix)"
  have r: "reachable ?u" using swap_states reachable_run by metis
  have "distinct (participants (game ?u))" using swap_states by simp
  moreover have "\<not> complete (game ?u)"
    by (simp add: swap_prefix_def run_eval complete_def)
  ultimately show ?thesis using results_list_shows_log [OF r] by blast
qed

section \<open>The counters\<close>

lemma handleSpinComplete_available:
  "handleSpinComplete r g = Some g' \<Longrightarrow>
   availableParticipants g' = filter (\<lambda>p. p \<notin> set (playedParticipants g')) (participants g')"
  by (auto simp: handleSpinComplete_def Let_def split: option.splits prod.splits if_splits)

lemma reachable_available:
  "reachable u \<Longrightarrow> availableParticipants (game u) =
     filter (\<lambda>p. p \<notin> set (playedParticipants (game u))) (participants (game u))"
proof (induction rule: reachable.induct)
  case loaded
  then show ?case
    by (simp add: page_loaded_def loadParticipants_def updateParticipants_def empty_game_def Let_def)
next
  case (event u e u' a)
  then show ?case
    using onSpace_frame [of u]
    by (cases e) (auto simp: updateParticipants_def resetDefaults_def loadParticipants_def
        startGame_def clickPlayer_def selectPlayer_def handleSpinClick_def startSpin_def
        closeModal_def closeSummary_def finishSpin_def Let_def
        dest: handleSpinComplete_available split: if_splits option.splits)
qed

text \<open>
  The counters agree: on every reachable page with a roster without duplicate
  names, the played count plus the remaining count is the participant count.
\<close>

theorem counters_add_up:
  assumes "reachable u" and "distinct (participants (game u))"
  shows "(case updateCountDisplay (game u) of (n, p, rem) \<Rightarrow> p + rem = n)"
proof -
  from reachable_log_inv [OF assms] have "distinct (playedParticipants (game u))"
    "set (playedParticipants (game u)) \<subseteq> set (participants (game u))"
    by (simp_all add: log_inv_def)
  from length_filter_not_in [OF assms(2) this] reachable_available [OF assms(1)]
  show ?thesis by (simp add: updateCountDisplay_def)
qed

theorem counters_add_up_witness:
  "(case updateCountDisplay (game (the (run page_loaded swap_prefix))) of (n, p, rem) \<Rightarrow> p + rem = n)"
proof -
  let ?u = "the (run page_loaded swap_prefix)"
  have r: "reachable ?u" using swap_states reachable_run by metis
  have "distinct (participants (game ?u))" using swap_states by simp
  from counters_add_up [OF r this] show ?thesis .
qed

section \<open>The list at the swap\<close>

text \<open>
  C16: At the swap, which is the last spin, the results list stays right exactly when
  the first item that mentions the victim (as player or as gift owner) is the
  victim's own item; when the victim's gift was drawn by a player who spun after the
  victim, \<^verbatim>\<open>updateResultInList\<close> rewrites that player's item and the list disagrees
  with the log (roster without duplicate names, no name equal to a label of the item).
\<close>

theorem swap_results_list_iff:
  assumes "reachable u" and "distinct (participants (game u))" and "isSpinning u"
    and "currentPlayer (game u) = Some c" and "normal_wheel (game u) c = []"
    and "labelPlayer \<notin> set (participants (game u))" and "labelGift \<notin> set (participants (game u))"
    and "finishSpin r u = Some u'"
  shows "(map row_pair (resultsList u') = log_pairs (giftAssignments (game u')))
    = (map_option rowPlayer
         (find (li_matches (swap_wheel (game u) c ! winnerIndex r (swap_wheel (game u) c))) (resultsList u))
       = Some (swap_wheel (game u) c ! winnerIndex r (swap_wheel (game u) c)))"
proof -
  let ?g = "game u" and ?v = "swap_wheel (game u) c ! winnerIndex r (swap_wheel (game u) c)"
  from reachable_spinning_inv [OF assms(1-3)]
  have inv: "game_inv ?g" "chain_inv ?g" "\<not> complete ?g" by simp_all
  then have li: "log_inv ?g" by (simp add: game_inv_def)
  from assms(8) obtain g' where h: "handleSpinComplete r ?g = Some g'"
    and u': "u' = u\<lparr>isSpinning := False, game := g', screen := WinnerModal,
      resultsList := handleSpinComplete_results r ?g (resultsList u)\<rparr>"
    by (auto simp: finishSpin_def split: option.splits)
  from h obtain c' where "currentPlayer ?g = Some c'" and "fst (wheelNames ?g c') \<noteq> []"
    by (rule handleSpinComplete_Some_cases)
  with assms(4,5) have sw: "swap_wheel ?g c \<noteq> []" by simp
  then have vin: "?v \<in> set (swap_wheel ?g c)" by (rule winner_in_wheel)
  from swap_victim_found [OF li inv(2) assms(4,5) vin]
  obtain va where va: "find (\<lambda>a. player a = ?v) (giftAssignments ?g) = Some va" by auto
  from vin have vR: "?v \<in> set (participants ?g)" and vc: "c \<noteq> ?v" by (auto simp: set_swap_wheel)
  from find_player_Some [OF va] li have "gift va \<in> set (participants ?g)"
    by (force simp: log_inv_def)
  moreover from inv(2) assms(4) have "c \<in> set (participants ?g)" by (simp add: chain_inv_def)
  ultimately have ne: "c \<noteq> []" "gift va \<noteq> []" using reachable_names_nonempty [OF assms(1)] by auto
  from reachable_display [OF assms(1)] assms(2) inv(3) have "display_ok u"
    using reachable_started_screen [OF assms(1)] assms(3) by (auto simp: setup_inv_def)
  then have d: "list_all row_plain (resultsList u)"
    "map row_pair (resultsList u) = log_pairs (giftAssignments ?g)" by (simp_all add: display_ok_def)
  from li have "distinct (map player (giftAssignments ?g))" by (simp add: log_inv_def)
  moreover have "?v \<noteq> labelPlayer" "?v \<noteq> labelGift" using vR assms(6,7) by auto
  ultimately have "(map row_pair (handleSpinComplete_results r ?g (resultsList u)) =
      log_pairs (giftAssignments g'))
    = (map_option rowPlayer (find (li_matches ?v) (resultsList u)) = Some ?v)"
    using swap_results_iff [OF assms(4,5) h refl va ne vc _ _ d] by blast
  with u' show ?thesis by simp
qed

theorem swap_results_list_iff_witness:
  "(map row_pair (resultsList (the (finishSpin 0
        (the (run page_loaded (swap_prefix @ [ClickSelect ''C'', ClickSpin]))))))
      = log_pairs (giftAssignments (game (the (finishSpin 0
        (the (run page_loaded (swap_prefix @ [ClickSelect ''C'', ClickSpin]))))))))
   = (map_option rowPlayer
        (find (li_matches (swap_wheel (game (the (run page_loaded (swap_prefix @ [ClickSelect ''C'', ClickSpin])))) ''C''
             ! winnerIndex 0 (swap_wheel (game (the (run page_loaded (swap_prefix @ [ClickSelect ''C'', ClickSpin])))) ''C'')))
          (resultsList (the (run page_loaded (swap_prefix @ [ClickSelect ''C'', ClickSpin])))))
      = Some (swap_wheel (game (the (run page_loaded (swap_prefix @ [ClickSelect ''C'', ClickSpin])))) ''C''
             ! winnerIndex 0 (swap_wheel (game (the (run page_loaded (swap_prefix @ [ClickSelect ''C'', ClickSpin])))) ''C'')))"
proof -
  let ?u = "the (run page_loaded (swap_prefix @ [ClickSelect ''C'', ClickSpin]))"
  have r: "reachable ?u" using swap_fixture by simp
  from swap_states have s: "distinct (participants (game ?u))" "isSpinning ?u"
    "currentPlayer (game ?u) = Some ''C''" "normal_wheel (game ?u) ''C'' = []"
    and ps: "participants (game ?u) = [''A'', ''B'', ''C'']" by simp_all
  have l: "labelPlayer \<notin> set (participants (game ?u))" "labelGift \<notin> set (participants (game ?u))"
    using ps by (simp_all add: labelPlayer_def labelGift_def)
  have f: "finishSpin 0 ?u = Some (the (finishSpin 0 ?u))"
    by (simp add: swap_prefix_def run_eval)
  from swap_results_list_iff [OF r s l f] show ?thesis .
qed

end
