(* ===== verification/Animation.thy ===== *)
theory Animation
  imports Complex_Main Engine
begin

text \<open>
  The spin animation of \<^verbatim>\<open>startSpin\<close> and the angle arithmetic of
  \<^verbatim>\<open>handleSpinComplete\<close> and \<^verbatim>\<open>drawWheel\<close>, over the real numbers (exact arithmetic;
  the floating-point rounding of the browser is not modelled). The wheel angle
  \<^verbatim>\<open>rotation\<close> decides the slice under the pointer; the rest of the model takes that
  slice number as the input \<open>r\<close> of \<open>handleSpinComplete\<close>, and the lemmas here show
  that this loses nothing: every slice can be reached, and the slice the code
  announces is the slice painted under the pointer.
\<close>

section \<open>The slice under the pointer\<close>

text \<open>
  JavaScript's \<^verbatim>\<open>%\<close> on numbers keeps the sign of the dividend: the quotient is
  truncated toward zero.
\<close>

definition js_rem :: "real \<Rightarrow> real \<Rightarrow> real" where
  "js_rem x m = (let q = x / m in x - m * of_int (if 0 \<le> q then \<lfloor>q\<rfloor> else \<lceil>q\<rceil>))"

text \<open>The code's normalisation: \<^verbatim>\<open>a = x % m; if (a < 0) a += m\<close>.\<close>

definition js_norm :: "real \<Rightarrow> real \<Rightarrow> real" where
  "js_norm x m = (let a = js_rem x m in if a < 0 then a + m else a)"

definition sliceAngle :: "nat \<Rightarrow> real" where
  "sliceAngle n = 2 * pi / real n"

text \<open>
  Lines 531--542: the rotation is normalised, the pointer sits at \<open>3\<pi>/2\<close>, and the
  slice index is \<^verbatim>\<open>Math.floor(adjustedAngle / sliceAngle) % wheelNames.length\<close>.
\<close>

definition adjustedAngle :: "real \<Rightarrow> real" where
  "adjustedAngle rotation =
     (let normalizedRotation = js_norm rotation (2 * pi);
          pointerAngle = 3 * pi / 2 - normalizedRotation
      in js_norm pointerAngle (2 * pi))"

definition angle_slice :: "real \<Rightarrow> nat \<Rightarrow> nat" where
  "angle_slice rotation n = nat \<lfloor>adjustedAngle rotation / sliceAngle n\<rfloor>"

definition angle_winnerIndex :: "real \<Rightarrow> nat \<Rightarrow> nat" where
  "angle_winnerIndex rotation n = angle_slice rotation n mod n"

text \<open>\<^verbatim>\<open>drawWheel\<close> paints slice \<open>i\<close> from \<^verbatim>\<open>rotation + i * sliceAngle\<close> on (line 297).\<close>

definition slice_start :: "real \<Rightarrow> nat \<Rightarrow> nat \<Rightarrow> real" where
  "slice_start rotation n i = rotation + real i * sliceAngle n"

section \<open>The animation\<close>

text \<open>
  What \<^verbatim>\<open>startSpin\<close> fixes when the spin starts (lines 421--427), from the current
  rotation, the start time and the three \<^verbatim>\<open>Math.random()\<close> draws.
\<close>

record spin_anim =
  startRotation :: real
  targetRotation :: real
  duration :: real
  startTime :: real

definition startSpin_anim :: "real \<Rightarrow> real \<Rightarrow> real \<Rightarrow> real \<Rightarrow> real \<Rightarrow> spin_anim" where
  "startSpin_anim rot now rnd1 rnd2 rnd3 =
     (let dur = 6000 + rnd1 * 2000;
          extraSpins = 5 + rnd2 * 5;
          randomAngle = rnd3 * 2 * pi
      in \<lparr>startRotation = rot, targetRotation = rot + extraSpins * 2 * pi + randomAngle,
          duration = dur, startTime = now\<rparr>)"

definition progress :: "spin_anim \<Rightarrow> real \<Rightarrow> real" where
  "progress a currentTime = min ((currentTime - startTime a) / duration a) 1"

text \<open>Quartic ease-out.\<close>

definition ease :: "real \<Rightarrow> real" where
  "ease p = 1 - (1 - p) ^ 4"

definition rotation_at :: "spin_anim \<Rightarrow> real \<Rightarrow> real" where
  "rotation_at a currentTime =
     startRotation a + (targetRotation a - startRotation a) * ease (progress a currentTime)"

text \<open>
  The state \<^verbatim>\<open>animate\<close> carries from frame to frame: the rotation of the last frame
  (the tick sound counts slice borders passed since then) and the spring of the
  pointer, in degrees.
\<close>

record anim_state =
  lastRotation :: real
  pointerAngle :: real
  pointerVelocity :: real

definition anim_start :: "spin_anim \<Rightarrow> anim_state" where
  "anim_start a = \<lparr>lastRotation = startRotation a, pointerAngle = 0, pointerVelocity = 0\<rparr>"

text \<open>
  One frame of \<^verbatim>\<open>animate(currentTime)\<close> (lines 435--484): the new rotation, the
  ticks passed (a kick of the pointer, and \<^verbatim>\<open>playTickSound\<close>), the spring step and
  the two hard limits.
\<close>

definition animate_frame :: "nat \<Rightarrow> spin_anim \<Rightarrow> real \<Rightarrow> anim_state \<Rightarrow> anim_state" where
  "animate_frame n a currentTime s =
     (let rotation = rotation_at a currentTime;
          offset = pi / 2;
          currentTick = \<lfloor>(rotation + offset) / sliceAngle n\<rfloor>;
          lastTick = \<lfloor>(lastRotation s + offset) / sliceAngle n\<rfloor>;
          ticksPassed = currentTick - lastTick;
          v0 = (if 0 < ticksPassed then pointerVelocity s - 25 * of_int (min ticksPassed 2)
                else pointerVelocity s);
          acceleration = (0 - pointerAngle s) * 0.5;
          v1 = (v0 + acceleration) * 0.75;
          pa1 = pointerAngle s + v1;
          (pa2, v2) = (if pa1 < -90 then (-90, 0) else (pa1, v1));
          (pa3, v3) = (if 10 < pa2 then (10, v2 * - 0.015) else (pa2, v2))
      in \<lparr>lastRotation = rotation, pointerAngle = pa3, pointerVelocity = v3\<rparr>)"

text \<open>
  The \<^verbatim>\<open>requestAnimationFrame\<close> loop: \<open>frameTime k\<close> is the time stamp of frame \<open>k\<close>.
  It stops at the first frame whose progress reaches 1 and returns that frame's
  number and state; a clock that never reaches the end is \<open>None\<close>.
\<close>

partial_function (option) animate ::
  "nat \<Rightarrow> spin_anim \<Rightarrow> (nat \<Rightarrow> real) \<Rightarrow> nat \<Rightarrow> anim_state \<Rightarrow> (nat \<times> anim_state) option" where
  "animate n a frameTime k s =
     (let s' = animate_frame n a (frameTime k) s
      in if progress a (frameTime k) < 1 then animate n a frameTime (Suc k) s' else Some (k, s'))"

section \<open>Lemmas: angles\<close>

definition fmod :: "real \<Rightarrow> real \<Rightarrow> real" where
  "fmod x m = x - m * of_int \<lfloor>x / m\<rfloor>"

lemma floor_div_bounds:
  assumes m: "0 < m"
  shows "of_int \<lfloor>x / m\<rfloor> * m \<le> x" and "x < (of_int \<lfloor>x / m\<rfloor> + 1) * m"
proof -
  have a: "of_int \<lfloor>x / m\<rfloor> \<le> x / m" and b: "x / m < of_int \<lfloor>x / m\<rfloor> + 1" by linarith+
  show "of_int \<lfloor>x / m\<rfloor> * m \<le> x" using pos_le_divide_eq [OF m] a by blast
  show "x < (of_int \<lfloor>x / m\<rfloor> + 1) * m" using pos_divide_less_eq [OF m] b by blast
qed

lemma fmod_bounds: "0 < m \<Longrightarrow> 0 \<le> fmod x m \<and> fmod x m < m"
  using floor_div_bounds [of m x] by (simp add: fmod_def algebra_simps)

lemma js_norm_fmod:
  assumes "0 < m"
  shows "js_norm x m = fmod x m"
proof (cases "0 \<le> x / m")
  case True
  with assms fmod_bounds [OF assms, of x] show ?thesis
    by (simp add: js_norm_def js_rem_def fmod_def Let_def)
next
  case False
  show ?thesis
  proof (cases "x / m = of_int \<lfloor>x / m\<rfloor>")
    case True
    then have "\<lceil>x / m\<rceil> = \<lfloor>x / m\<rfloor>" by (simp add: ceiling_altdef)
    moreover from True assms have "x - m * of_int \<lfloor>x / m\<rfloor> = 0" by (simp add: field_simps)
    ultimately show ?thesis using False by (simp add: js_norm_def js_rem_def fmod_def Let_def)
  next
    case nint: False
    then have fc: "\<lceil>x / m\<rceil> = \<lfloor>x / m\<rfloor> + 1" by (simp add: ceiling_altdef)
    from floor_div_bounds(2) [OF assms, of x] have "x - m * of_int \<lceil>x / m\<rceil> < 0" using fc by (simp add: algebra_simps)
    with False fc show ?thesis by (simp add: js_norm_def js_rem_def fmod_def Let_def algebra_simps)
  qed
qed

lemma fmod_shift: "0 < m \<Longrightarrow> fmod (x + m * of_int k) m = fmod x m"
proof -
  assume m: "0 < m"
  then have "(x + m * of_int k) / m = x / m + of_int k" by (simp add: field_simps)
  then show ?thesis by (simp add: fmod_def algebra_simps)
qed

lemma fmod_id: "0 \<le> x \<Longrightarrow> x < m \<Longrightarrow> fmod x m = x"
proof -
  assume "0 \<le> x" "x < m"
  then have "0 \<le> x / m" "x / m < 1" by simp_all
  then have "\<lfloor>x / m\<rfloor> = 0" by linarith
  then show ?thesis by (simp add: fmod_def)
qed

lemma adjustedAngle_fmod: "adjustedAngle rotation = fmod (3 * pi / 2 - rotation) (2 * pi)"
proof -
  have p: "0 < 2 * pi" by simp
  have e: "3 * pi / 2 - fmod rotation (2 * pi) =
      (3 * pi / 2 - rotation) + 2 * pi * of_int \<lfloor>rotation / (2 * pi)\<rfloor>"
    by (simp add: fmod_def)
  have "adjustedAngle rotation = fmod (3 * pi / 2 - fmod rotation (2 * pi)) (2 * pi)"
    by (simp add: adjustedAngle_def js_norm_fmod [OF p])
  also have "\<dots> = fmod ((3 * pi / 2 - rotation) + 2 * pi * of_int \<lfloor>rotation / (2 * pi)\<rfloor>) (2 * pi)"
    by (simp only: e)
  also have "\<dots> = fmod (3 * pi / 2 - rotation) (2 * pi)" by (rule fmod_shift [OF p])
  finally show ?thesis .
qed

lemma adjustedAngle_bounds: "0 \<le> adjustedAngle rotation \<and> adjustedAngle rotation < 2 * pi"
  using fmod_bounds [of "2 * pi"] by (simp add: adjustedAngle_fmod)

lemma sliceAngle_pos: "0 < n \<Longrightarrow> 0 < sliceAngle n"
  by (simp add: sliceAngle_def)

lemma angle_slice_bounds:
  assumes "0 < n"
  shows "real (angle_slice rotation n) * sliceAngle n \<le> adjustedAngle rotation"
    and "adjustedAngle rotation < (real (angle_slice rotation n) + 1) * sliceAngle n"
    and "angle_slice rotation n < n"
proof -
  let ?a = "adjustedAngle rotation" and ?s = "sliceAngle n"
  have s: "0 < ?s" using assms by (rule sliceAngle_pos)
  have a: "0 \<le> ?a" "?a < 2 * pi" using adjustedAngle_bounds by simp_all
  then have f0: "0 \<le> \<lfloor>?a / ?s\<rfloor>" using s by simp
  then have eq: "real (angle_slice rotation n) = of_int \<lfloor>?a / ?s\<rfloor>" by (simp add: angle_slice_def)
  from floor_div_bounds [OF s, of ?a] eq
  show "real (angle_slice rotation n) * ?s \<le> ?a" "?a < (real (angle_slice rotation n) + 1) * ?s"
    by simp_all
  have "?a / ?s < real n" using a assms by (simp add: sliceAngle_def field_simps)
  then have "\<lfloor>?a / ?s\<rfloor> < int n" by linarith
  with f0 show "angle_slice rotation n < n" by (simp add: angle_slice_def nat_less_iff)
qed

text \<open>
  C18: The winner the code announces is the slice it paints under the pointer: for
  every rotation of a wheel of \<open>n > 0\<close> names, the index of lines 531--542 is below
  \<open>n\<close> (so the final \<^verbatim>\<open>% wheelNames.length\<close> changes nothing in exact arithmetic),
  and the slice \<^verbatim>\<open>drawWheel\<close> paints with that index, from \<^verbatim>\<open>rotation + i * sliceAngle\<close>
  to the next, contains the pointer direction \<open>3\<pi>/2\<close> up to whole turns.
\<close>

theorem pointer_over_winner:
  assumes "0 < n"
  shows "angle_winnerIndex rotation n = angle_slice rotation n \<and> angle_winnerIndex rotation n < n
    \<and> (\<exists>k::int. slice_start rotation n (angle_winnerIndex rotation n) \<le> 3 * pi / 2 + 2 * pi * of_int k
         \<and> 3 * pi / 2 + 2 * pi * of_int k < slice_start rotation n (angle_winnerIndex rotation n) + sliceAngle n)"
proof -
  let ?i = "angle_slice rotation n" and ?s = "sliceAngle n" and ?a = "adjustedAngle rotation"
  note b = angle_slice_bounds [OF assms, of rotation]
  then have w: "angle_winnerIndex rotation n = ?i" by (simp add: angle_winnerIndex_def)
  let ?k = "- \<lfloor>(3 * pi / 2 - rotation) / (2 * pi)\<rfloor>"
  have "rotation + ?a = 3 * pi / 2 + 2 * pi * of_int ?k"
    by (simp add: adjustedAngle_fmod fmod_def)
  with b(1,2) have "slice_start rotation n ?i \<le> 3 * pi / 2 + 2 * pi * of_int ?k"
    "3 * pi / 2 + 2 * pi * of_int ?k < slice_start rotation n ?i + ?s"
    by (simp_all add: slice_start_def algebra_simps)
  then show ?thesis unfolding w using b(3) by blast
qed

theorem pointer_over_winner_witness:
  "angle_winnerIndex 1 3 = angle_slice 1 3 \<and> angle_winnerIndex 1 3 < 3
    \<and> (\<exists>k::int. slice_start 1 3 (angle_winnerIndex 1 3) \<le> 3 * pi / 2 + 2 * pi * of_int k
         \<and> 3 * pi / 2 + 2 * pi * of_int k < slice_start 1 3 (angle_winnerIndex 1 3) + sliceAngle 3)"
  by (rule pointer_over_winner) simp

text \<open>
  C19: Every slice can win: for each index \<open>i < n\<close> there is a rotation, the one
  that puts the middle of slice \<open>i\<close> under the pointer, for which the code announces
  slice \<open>i\<close>. So taking the slice number as the input of the spin, as the rest of the
  model does, covers exactly the outcomes the animation can produce.
\<close>

theorem every_slice_can_win:
  assumes "i < n"
  shows "angle_winnerIndex (3 * pi / 2 - (real i + 1 / 2) * sliceAngle n) n = i"
proof -
  let ?s = "sliceAngle n" and ?x = "(real i + 1 / 2) * sliceAngle n"
  have n: "0 < n" using assms by simp
  have "?x < 2 * pi"
  proof -
    have "real i + 1 / 2 < real n" using assms by linarith
    then have "(real i + 1 / 2) * (2 * pi) < real n * (2 * pi)" by simp
    with n show ?thesis by (simp add: sliceAngle_def field_simps)
  qed
  moreover have "0 \<le> ?x" using sliceAngle_pos [OF n] by simp
  ultimately have "adjustedAngle (3 * pi / 2 - ?x) = ?x" by (simp add: adjustedAngle_fmod fmod_id)
  moreover have "?x / ?s = real i + 1 / 2" using sliceAngle_pos [OF n] by simp
  moreover have "\<lfloor>real i + 1 / 2 :: real\<rfloor> = int i" by linarith
  ultimately have "angle_slice (3 * pi / 2 - ?x) n = i" by (simp add: angle_slice_def)
  with angle_slice_bounds(3) [OF n, of "3 * pi / 2 - ?x"] show ?thesis
    by (simp add: angle_winnerIndex_def)
qed

theorem every_slice_can_win_witness:
  "angle_winnerIndex (3 * pi / 2 - (real (2::nat) + 1 / 2) * sliceAngle 5) 5 = 2"
  by (rule every_slice_can_win) simp

section \<open>Lemmas: the animation\<close>

lemma progress_less_1:
  "0 < duration a \<Longrightarrow> (progress a t < 1) = (t < startTime a + duration a)"
  by (simp add: progress_def min_def divide_less_eq algebra_simps)

lemma animate_unfold:
  "animate n a frameTime k s =
     (if progress a (frameTime k) < 1
      then animate n a frameTime (Suc k) (animate_frame n a (frameTime k) s)
      else Some (k, animate_frame n a (frameTime k) s))"
  by (subst animate.simps) (simp add: Let_def)

lemma animate_returns_within:
  assumes d: "0 < duration a" and step: "\<forall>k. frameTime k + \<delta> \<le> frameTime (Suc k)"
  shows "startTime a + duration a - frameTime k < real m * \<delta> \<Longrightarrow>
    \<exists>j s'. animate n a frameTime k s = Some (j, s') \<and> k \<le> j \<and> startTime a + duration a \<le> frameTime j"
proof (induction m arbitrary: k s)
  case 0
  then have "\<not> progress a (frameTime k) < 1" using progress_less_1 [OF d] by simp
  then show ?case using progress_less_1 [OF d] by (auto simp: animate_unfold [of n a frameTime k s])
next
  case (Suc m)
  show ?case
  proof (cases "progress a (frameTime k) < 1")
    case True
    have "real (Suc m) * \<delta> = real m * \<delta> + \<delta>" by (simp add: algebra_simps)
    moreover have "frameTime k + \<delta> \<le> frameTime (Suc k)" using step by blast
    ultimately have "startTime a + duration a - frameTime (Suc k) < real m * \<delta>"
      using Suc.prems by linarith
    from Suc.IH [OF this] obtain j s' where
      "animate n a frameTime (Suc k) (animate_frame n a (frameTime k) s) = Some (j, s')"
      "Suc k \<le> j" "startTime a + duration a \<le> frameTime j" by blast
    with True show ?thesis by (auto simp: animate_unfold [of n a frameTime k s])
  next
    case False
    then show ?thesis using progress_less_1 [OF d] by (auto simp: animate_unfold [of n a frameTime k s])
  qed
qed

lemma pointer_frame_bounds:
  "- 90 \<le> pointerAngle (animate_frame n a t s) \<and> pointerAngle (animate_frame n a t s) \<le> 10"
  by (simp add: animate_frame_def Let_def split: prod.splits if_splits)

lemma ease_mono:
  assumes "p \<le> q" and "q \<le> 1"
  shows "ease p \<le> ease q"
proof -
  have "(1 - q) ^ 4 \<le> (1 - p) ^ 4" using assms by (intro power_mono) simp_all
  then show ?thesis by (simp add: ease_def)
qed

lemma progress_mono: "0 < duration a \<Longrightarrow> t1 \<le> t2 \<Longrightarrow> progress a t1 \<le> progress a t2"
  by (simp add: progress_def min_def divide_right_mono)

lemma progress_le_1: "progress a t \<le> 1"
  by (simp add: progress_def)

text \<open>
  C20: The spin animation ends: if the duration is positive and the browser's frame
  clock advances by at least some \<open>\<delta> > 0\<close> per frame, the \<^verbatim>\<open>requestAnimationFrame\<close>
  loop stops, at a frame whose time stamp has reached the end of the duration, and
  then hands over to \<^verbatim>\<open>handleSpinComplete\<close>.
\<close>

theorem animation_terminates:
  assumes "0 < duration a" and "0 < \<delta>" and "\<forall>k. frameTime k + \<delta> \<le> frameTime (Suc k)"
  shows "\<exists>j s'. animate n a frameTime k s = Some (j, s') \<and> k \<le> j
    \<and> startTime a + duration a \<le> frameTime j"
proof -
  obtain m where "startTime a + duration a - frameTime k < real m * \<delta>"
    using ex_less_of_nat_mult [OF assms(2)] by blast
  from animate_returns_within [OF assms(1,3) this] show ?thesis .
qed

theorem animation_terminates_witness:
  "\<exists>j s'. animate 3 (startSpin_anim 0 0 0 0 0) (\<lambda>k. real k * 16) 0 (anim_start (startSpin_anim 0 0 0 0 0))
      = Some (j, s') \<and> 0 \<le> j
    \<and> startTime (startSpin_anim 0 0 0 0 0) + duration (startSpin_anim 0 0 0 0 0) \<le> real j * 16"
proof -
  have "0 < duration (startSpin_anim 0 0 0 0 0)" by (simp add: startSpin_anim_def)
  moreover have "\<forall>k. real k * 16 + 16 \<le> real (Suc k) * (16::real)" by (simp add: algebra_simps)
  ultimately have "\<exists>j s'. animate 3 (startSpin_anim 0 0 0 0 0) (\<lambda>k. real k * 16) 0
      (anim_start (startSpin_anim 0 0 0 0 0)) = Some (j, s') \<and> 0 \<le> j
    \<and> startTime (startSpin_anim 0 0 0 0 0) + duration (startSpin_anim 0 0 0 0 0) \<le> real j * 16"
    using animation_terminates [of "startSpin_anim 0 0 0 0 0" 16 "\<lambda>k. real k * 16" 3 0
        "anim_start (startSpin_anim 0 0 0 0 0)"] by simp
  then show ?thesis .
qed

text \<open>
  C21: The pointer stays within its hard limits: whatever the kicks of the tick
  sounds and the spring, the last frame of a spin leaves the pointer between
  \<open>-90\<close> and \<open>10\<close> degrees.
\<close>

theorem pointer_stays_in_range:
  assumes "animate n a frameTime k s = Some (j, s')"
  shows "- 90 \<le> pointerAngle s' \<and> pointerAngle s' \<le> 10"
proof -
  have "\<forall>j s'. r = (j, s') \<longrightarrow> - 90 \<le> pointerAngle s' \<and> pointerAngle s' \<le> 10"
    if "animate n a frameTime k s = Some r" for r
  proof (rule animate.raw_induct [where P = "\<lambda>n a frameTime k s r.
      \<forall>j s'. r = (j, s') \<longrightarrow> - 90 \<le> pointerAngle s' \<and> pointerAngle s' \<le> 10", OF _ that])
    fix f n a frameTime k s r
    assume IH: "\<And>n a frameTime k s r. f n a frameTime k s = Some r \<Longrightarrow>
        \<forall>j s'. r = (j, s') \<longrightarrow> - 90 \<le> pointerAngle s' \<and> pointerAngle s' \<le> 10"
      and eq: "(let s' = animate_frame n a (frameTime k) s
        in if progress a (frameTime k) < 1 then f n a frameTime (Suc k) s' else Some (k, s')) = Some r"
    show "\<forall>j s'. r = (j, s') \<longrightarrow> - 90 \<le> pointerAngle s' \<and> pointerAngle s' \<le> 10"
    proof (cases "progress a (frameTime k) < 1")
      case True
      with eq IH show ?thesis by (simp add: Let_def)
    next
      case False
      with eq pointer_frame_bounds show ?thesis by (auto simp: Let_def)
    qed
  qed
  with assms show ?thesis by blast
qed

theorem pointer_stays_in_range_witness:
  "\<exists>j s'. animate 3 (startSpin_anim 0 0 0 0 0) (\<lambda>k. real k * 16) 0 (anim_start (startSpin_anim 0 0 0 0 0))
      = Some (j, s') \<and> - 90 \<le> pointerAngle s' \<and> pointerAngle s' \<le> 10"
proof -
  let ?a = "startSpin_anim 0 0 0 0 0"
  have d: "0 < duration ?a" by (simp add: startSpin_anim_def)
  have st: "\<forall>k. real k * 16 + 16 \<le> real (Suc k) * (16::real)" by (simp add: algebra_simps)
  have "startTime ?a + duration ?a - real 0 * 16 < real (400::nat) * 16"
    by (simp add: startSpin_anim_def)
  from animate_returns_within [OF d st this, of 3 "anim_start ?a"]
  obtain j s' where r: "animate 3 ?a (\<lambda>k. real k * 16) 0 (anim_start ?a) = Some (j, s')" by blast
  from r pointer_stays_in_range [OF r] show ?thesis by blast
qed

text \<open>
  C22: The wheel only turns forward and stops where it was aimed: the random draws
  of \<^verbatim>\<open>startSpin\<close> lie in \<open>[0, 1)\<close>, so the target is at least five full turns ahead,
  the eased rotation never decreases with time, and at every time from the end of
  the duration on it is the target.
\<close>

theorem wheel_turns_forward:
  assumes "a = startSpin_anim rot now rnd1 rnd2 rnd3"
    and "0 \<le> rnd1" and "0 \<le> rnd2" and "0 \<le> rnd3" and "t1 \<le> t2" and "now + duration a \<le> t3"
  shows "rot + 10 * pi \<le> targetRotation a \<and> rotation_at a t1 \<le> rotation_at a t2
    \<and> rotation_at a t3 = targetRotation a"
proof -
  have d: "0 < duration a" and st: "startRotation a = rot" and t: "startTime a = now"
    and tg: "targetRotation a = rot + (5 + rnd2 * 5) * 2 * pi + rnd3 * 2 * pi"
    using assms(1,2) by (simp_all add: startSpin_anim_def)
  have "0 \<le> rnd2 * pi" "0 \<le> rnd3 * pi" using assms(3,4) by simp_all
  then have "rot + 10 * pi \<le> targetRotation a" using tg by (simp add: algebra_simps)
  moreover have "ease (progress a t1) \<le> ease (progress a t2)"
    by (rule ease_mono [OF progress_mono [OF d assms(5)] progress_le_1])
  moreover have "0 \<le> targetRotation a - startRotation a"
    using \<open>rot + 10 * pi \<le> targetRotation a\<close> st pi_gt_zero by linarith
  ultimately have "rotation_at a t1 \<le> rotation_at a t2"
    by (simp add: rotation_at_def mult_left_mono)
  moreover have "1 \<le> (t3 - startTime a) / duration a"
    using d t assms(6) by (simp add: le_divide_eq)
  then have "progress a t3 = 1" by (simp add: progress_def)
  then have "rotation_at a t3 = targetRotation a" by (simp add: rotation_at_def ease_def)
  ultimately show ?thesis using \<open>rot + 10 * pi \<le> targetRotation a\<close> by blast
qed

theorem wheel_turns_forward_witness:
  "0 + 10 * pi \<le> targetRotation (startSpin_anim 0 0 (1/2) (1/2) (1/2))
   \<and> rotation_at (startSpin_anim 0 0 (1/2) (1/2) (1/2)) 100
       \<le> rotation_at (startSpin_anim 0 0 (1/2) (1/2) (1/2)) 200
   \<and> rotation_at (startSpin_anim 0 0 (1/2) (1/2) (1/2)) 10000
       = targetRotation (startSpin_anim 0 0 (1/2) (1/2) (1/2))"
  by (rule wheel_turns_forward [OF refl]) (simp_all add: startSpin_anim_def)

end
