(* ===== verification/Colours.thy ===== *)
theory Colours
  imports Roster
begin

text \<open>
  The colours of the wheel in \<^verbatim>\<open>drawWheel\<close>: the palette, the colour of slice \<open>i\<close>
  (\<^verbatim>\<open>colors[i % colors.length]\<close>), the darker edge colour \<^verbatim>\<open>adjustColor(color, -60)\<close>,
  and the font size of a name. \<^verbatim>\<open>adjustColor\<close> is string code: it strips a leading
  \<^verbatim>\<open>#\<close>, replaces every pair of characters by \<^verbatim>\<open>parseInt(pair, 16) + amount\<close> clamped
  to \<open>[0, 255]\<close> and printed as two lowercase hex digits. The strings are the ASCII
  colour codes of the palette; \<^verbatim>\<open>parseInt\<close> follows ECMAScript (leading white space,
  a sign, a \<^verbatim>\<open>0x\<close> prefix, the longest run of hex digits, \<^verbatim>\<open>NaN\<close> without one).
\<close>

section \<open>Hex digits\<close>

definition hex_val :: "char \<Rightarrow> nat option" where
  "hex_val ch =
     (let n = of_char ch :: nat
      in if 48 \<le> n \<and> n \<le> 57 then Some (n - 48)
         else if 97 \<le> n \<and> n \<le> 102 then Some (n - 87)
         else if 65 \<le> n \<and> n \<le> 70 then Some (n - 55)
         else None)"

text \<open>\<^verbatim>\<open>Number.prototype.toString(16)\<close> prints lowercase digits.\<close>

definition hex_digit :: "nat \<Rightarrow> char" where
  "hex_digit d = char_of (if d < 10 then 48 + d else 87 + d)"

fun to_hex :: "nat \<Rightarrow> string" where
  "to_hex n = (if n < 16 then [hex_digit n] else to_hex (n div 16) @ [hex_digit (n mod 16)])"

fun hex_acc :: "nat \<Rightarrow> string \<Rightarrow> nat" where
  "hex_acc acc [] = acc"
| "hex_acc acc (c # cs) = (case hex_val c of None \<Rightarrow> acc | Some d \<Rightarrow> hex_acc (acc * 16 + d) cs)"

text \<open>\<^verbatim>\<open>parseInt(s, 16)\<close>; \<open>None\<close> is \<^verbatim>\<open>NaN\<close>.\<close>

definition parseInt16 :: "string \<Rightarrow> int option" where
  "parseInt16 s =
     (let s1 = dropWhile is_js_space s;
          (sign, s2) = (case s1 of c # r \<Rightarrow> if c = CHR ''-'' then (-1, r)
                                          else if c = CHR ''+'' then (1, r) else (1, s1)
                         | [] \<Rightarrow> (1, s1));
          s3 = (if take 2 s2 = ''0x'' \<or> take 2 s2 = ''0X'' then drop 2 s2 else s2)
      in case s3 of [] \<Rightarrow> None
         | c # _ \<Rightarrow> if hex_val c = None then None else Some (sign * int (hex_acc 0 s3)))"

definition js_toString16 :: "int \<Rightarrow> string" where
  "js_toString16 i = (if i < 0 then CHR ''-'' # to_hex (nat (- i)) else to_hex (nat i))"

text \<open>\<^verbatim>\<open>.substr(-2)\<close>: the last two characters, or the whole string if shorter.\<close>

definition last2 :: "string \<Rightarrow> string" where
  "last2 s = drop (length s - 2) s"

text \<open>
  One pair: \<^verbatim>\<open>('0' + Math.min(255, Math.max(0, parseInt(pair, 16) + amount)).toString(16)).substr(-2)\<close>;
  with \<^verbatim>\<open>NaN\<close> the text is \<^verbatim>\<open>'0NaN'.substr(-2)\<close>.
\<close>

definition adjust_pair :: "int \<Rightarrow> string \<Rightarrow> string" where
  "adjust_pair amount p =
     (case parseInt16 p of
        None \<Rightarrow> ''aN''
      | Some v \<Rightarrow> last2 (''0'' @ js_toString16 (min 255 (max 0 (v + amount)))))"

text \<open>
  \<^verbatim>\<open>.replace(/../g, f)\<close>: left to right, two characters that are not line
  terminators are replaced by \<open>f\<close> of them; any other character is kept.
\<close>

definition is_line_terminator :: "char \<Rightarrow> bool" where
  "is_line_terminator c = (c = CHR 0x0A \<or> c = CHR 0x0D)"

fun replace_pairs :: "(string \<Rightarrow> string) \<Rightarrow> string \<Rightarrow> string" where
  "replace_pairs f (a # b # rest) =
     (if \<not> is_line_terminator a \<and> \<not> is_line_terminator b then f [a, b] @ replace_pairs f rest
      else a # replace_pairs f (b # rest))"
| "replace_pairs f xs = xs"

definition strip_hash :: "string \<Rightarrow> string" where
  "strip_hash s = (case s of c # r \<Rightarrow> if c = CHR ''#'' then r else s | [] \<Rightarrow> [])"

definition adjustColor :: "string \<Rightarrow> int \<Rightarrow> string" where
  "adjustColor color amount = ''#'' @ replace_pairs (adjust_pair amount) (strip_hash color)"

section \<open>The palette\<close>

definition colors :: "string list" where
  "colors = [''#FF6B6B'', ''#4ECDC4'', ''#45B7D1'', ''#FFA07A'', ''#98D8C8'',
     ''#F7DC6F'', ''#BB8FCE'', ''#85C1E2'', ''#F8B739'', ''#52B788'',
     ''#FF8FA3'', ''#6C5CE7'', ''#FD79A8'', ''#A29BFE'', ''#74B9FF'']"

definition sliceColor :: "nat \<Rightarrow> string" where
  "sliceColor i = colors ! (i mod length colors)"

text \<open>The gradient of a slice: its colour in the middle, \<^verbatim>\<open>adjustColor(color, -60)\<close> at the rim.\<close>

definition sliceEdgeColor :: "nat \<Rightarrow> string" where
  "sliceEdgeColor i = adjustColor (sliceColor i) (- 60)"

text \<open>
  \<^verbatim>\<open>name.length\<close> counts UTF-16 code units. In the UTF-8 bytes of a name every byte
  that is not a continuation byte (\<open>10xxxxxx\<close>) starts one code point, which is one
  unit, or two for a four-byte sequence (lead byte \<open>\<ge> 0xF0\<close>, beyond U+FFFF).
\<close>

definition utf16_units :: "char \<Rightarrow> nat" where
  "utf16_units ch =
     (let b = (of_char ch :: nat) in if b < 128 then 1 else if b < 192 then 0 else if b < 240 then 1 else 2)"

definition js_length :: "string \<Rightarrow> nat" where
  "js_length s = sum_list (map utf16_units s)"

definition fontSize :: "name \<Rightarrow> nat" where
  "fontSize name =
     (if 20 < js_length name then 18 else if 12 < js_length name then 22
      else if 8 < js_length name then 24 else 28)"

text \<open>A colour \<open>#rrggbb\<close> and its three channels.\<close>

definition is_hex_color :: "string \<Rightarrow> bool" where
  "is_hex_color c = (length c = 7 \<and> hd c = CHR ''#'' \<and> list_all (\<lambda>ch. hex_val ch \<noteq> None) (tl c))"

fun chunks2 :: "string \<Rightarrow> string list" where
  "chunks2 (a # b # rest) = [a, b] # chunks2 rest"
| "chunks2 xs = []"

definition channels :: "string \<Rightarrow> int list" where
  "channels c = map (\<lambda>p. case parseInt16 p of Some v \<Rightarrow> v | None \<Rightarrow> -1) (chunks2 (tl c))"

definition clamp_channel :: "int \<Rightarrow> int \<Rightarrow> int" where
  "clamp_channel amount v = min 255 (max 0 (v + amount))"

section \<open>Lemmas: hex digits\<close>

lemma hex_val_digit: "d < 16 \<Longrightarrow> hex_val (hex_digit d) = Some d"
  by (simp add: hex_val_def hex_digit_def of_char_of Let_def)

lemma is_js_space_code: "is_js_space c \<Longrightarrow> of_char c \<le> (32::nat)"
  by (auto simp: is_js_space_def)

lemma of_char_hex_digit: "d < 16 \<Longrightarrow> 48 \<le> (of_char (hex_digit d) :: nat)"
  by (simp add: hex_digit_def of_char_of)

lemma hex_digit_not_space: "d < 16 \<Longrightarrow> \<not> is_js_space (hex_digit d)"
  using of_char_hex_digit [of d] is_js_space_code [of "hex_digit d"] by linarith

lemma hex_digit_0: "hex_digit 0 = CHR ''0''"
  using char_of_char [of "CHR ''0''"] by (simp add: hex_digit_def)

lemma to_hex_byte:
  assumes "v < 256"
  shows "last2 (''0'' @ to_hex v) = [hex_digit (v div 16), hex_digit (v mod 16)]"
proof (cases "v < 16")
  case True
  then show ?thesis by (simp add: last2_def hex_digit_0)
next
  case False
  with assms have "v div 16 < 16" by simp
  with False show ?thesis by (simp add: last2_def)
qed

lemma parse_two_digits:
  assumes "hex_val a = Some x" and "hex_val b = Some y" and "\<not> is_js_space a"
    and "a \<noteq> CHR ''-''" and "a \<noteq> CHR ''+''"
  shows "parseInt16 [a, b] = Some (int (16 * x + y))"
proof -
  from assms(2) have "b \<noteq> CHR ''x'' \<and> b \<noteq> CHR ''X''" by (auto simp: hex_val_def)
  with assms show ?thesis by (simp add: parseInt16_def Let_def)
qed

lemma hex_val_code: "hex_val c = Some x \<Longrightarrow> 48 \<le> (of_char c :: nat) \<and> x < 16"
  by (auto simp: hex_val_def Let_def split: if_splits)

lemma hex_pair_parse:
  assumes "hex_val a = Some x" and "hex_val b = Some y"
  shows "parseInt16 [a, b] = Some (int (16 * x + y))"
proof -
  from hex_val_code [OF assms(1)] have c: "48 \<le> (of_char a :: nat)" by simp
  then have "\<not> is_js_space a" using is_js_space_code [of a] by linarith
  moreover from c have "a \<noteq> CHR ''-''" "a \<noteq> CHR ''+''" by auto
  ultimately show ?thesis using parse_two_digits [OF assms] by blast
qed

lemma hex_byte:
  assumes "v < 256"
  shows "length (last2 (''0'' @ to_hex v)) = 2
    \<and> list_all (\<lambda>ch. hex_val ch \<noteq> None) (last2 (''0'' @ to_hex v))
    \<and> parseInt16 (last2 (''0'' @ to_hex v)) = Some (int v)"
proof -
  have d: "v div 16 < 16" "v mod 16 < 16" using assms by simp_all
  have "parseInt16 [hex_digit (v div 16), hex_digit (v mod 16)] = Some (int (16 * (v div 16) + v mod 16))"
    by (rule hex_pair_parse) (simp_all add: hex_val_digit d)
  then show ?thesis using to_hex_byte [OF assms] d by (simp add: hex_val_digit)
qed

lemma hex_char_not_terminator: "hex_val c \<noteq> None \<Longrightarrow> \<not> is_line_terminator c"
  using hex_val_code [of c] by (auto simp: is_line_terminator_def)

lemma replace_pairs_hex:
  "list_all (\<lambda>ch. hex_val ch \<noteq> None) s \<Longrightarrow> even (length s) \<Longrightarrow>
   replace_pairs f s = concat (map f (chunks2 s))"
  by (induction f s rule: replace_pairs.induct) (auto simp: hex_char_not_terminator)

lemma chunks2_concat: "list_all (\<lambda>p. length p = 2) ps \<Longrightarrow> chunks2 (concat ps) = ps"
proof (induction ps)
  case (Cons p ps)
  then obtain a b where "p = [a, b]" by (cases p rule: chunks2.cases) auto
  with Cons show ?case by simp
qed simp

lemma adjust_pair_hex:
  assumes "hex_val a = Some x" and "hex_val b = Some y"
  shows "adjust_pair amount [a, b] = last2 (''0'' @ to_hex (nat (clamp_channel amount (int (16 * x + y)))))"
  using hex_pair_parse [OF assms]
  by (simp add: adjust_pair_def clamp_channel_def js_toString16_def min_less_iff_disj
      max_less_iff_conj del: to_hex.simps)

lemma adjust_pair_byte:
  assumes "hex_val a \<noteq> None" and "hex_val b \<noteq> None"
  shows "length (adjust_pair amount [a, b]) = 2
    \<and> list_all (\<lambda>ch. hex_val ch \<noteq> None) (adjust_pair amount [a, b])
    \<and> parseInt16 (adjust_pair amount [a, b]) = map_option (clamp_channel amount) (parseInt16 [a, b])"
proof -
  from assms obtain x y where x: "hex_val a = Some x" and y: "hex_val b = Some y" by auto
  have "nat (clamp_channel amount (int (16 * x + y))) < 256" by (simp add: clamp_channel_def)
  from hex_byte [OF this] have "int (nat (clamp_channel amount (int (16 * x + y)))) =
      clamp_channel amount (int (16 * x + y))" by (simp add: clamp_channel_def)
  with hex_byte [OF \<open>nat (clamp_channel amount (int (16 * x + y))) < 256\<close>]
  show ?thesis by (simp add: adjust_pair_hex [OF x y] hex_pair_parse [OF x y])
qed

lemma adjustColor_hex:
  assumes "is_hex_color c"
  shows "is_hex_color (adjustColor c amount)
    \<and> channels (adjustColor c amount) = map (clamp_channel amount) (channels c)"
proof -
  from assms obtain s where c: "c = CHR ''#'' # s" and s: "length s = 6"
    and h: "list_all (\<lambda>ch. hex_val ch \<noteq> None) s"
    by (cases c) (auto simp: is_hex_color_def)
  then obtain a b d e f g where s6: "s = [a, b, d, e, f, g]"
    by (cases s rule: chunks2.cases; cases "tl (tl s)" rule: chunks2.cases;
        cases "tl (tl (tl (tl s)))" rule: chunks2.cases) auto
  let ?p = "adjust_pair amount"
  from h s6 have hv: "hex_val a \<noteq> None" "hex_val b \<noteq> None" "hex_val d \<noteq> None"
    "hex_val e \<noteq> None" "hex_val f \<noteq> None" "hex_val g \<noteq> None" by simp_all
  have "adjustColor c amount = CHR ''#'' # ?p [a, b] @ ?p [d, e] @ ?p [f, g]"
    using c s6 hv by (simp add: adjustColor_def strip_hash_def hex_char_not_terminator)
  moreover note adjust_pair_byte [OF hv(1,2), of amount] adjust_pair_byte [OF hv(3,4), of amount]
    adjust_pair_byte [OF hv(5,6), of amount]
  moreover have "chunks2 (?p [a, b] @ ?p [d, e] @ ?p [f, g]) = [?p [a, b], ?p [d, e], ?p [f, g]]"
    using chunks2_concat [of "[?p [a, b], ?p [d, e], ?p [f, g]]"] calculation(2-4) by simp
  moreover from hv obtain x1 x2 x3 where "parseInt16 [a, b] = Some x1" "parseInt16 [d, e] = Some x2"
    "parseInt16 [f, g] = Some x3" using hex_pair_parse by fastforce
  ultimately show ?thesis using c s6 by (simp add: is_hex_color_def channels_def)
qed

text \<open>
  C28: The rim of every slice is its colour darkened: for every slice index the
  edge colour \<^verbatim>\<open>adjustColor(colors[i % colors.length], -60)\<close> is a well-formed colour
  \<open>#rrggbb\<close> whose channels are those of the slice colour minus 60, clamped at 0.
\<close>

theorem slice_edge_darker:
  "is_hex_color (sliceEdgeColor i)
   \<and> channels (sliceEdgeColor i) = map (clamp_channel (- 60)) (channels (sliceColor i))"
proof -
  have "list_all is_hex_color colors" by (simp add: colors_def is_hex_color_def hex_val_def)
  moreover have "colors \<noteq> []" by (simp add: colors_def)
  then have "sliceColor i \<in> set colors" unfolding sliceColor_def by (rule nth_mod_in_set)
  ultimately have "is_hex_color (sliceColor i)" by (simp add: list_all_iff)
  from adjustColor_hex [OF this] show ?thesis by (simp add: sliceEdgeColor_def)
qed

text \<open>
  Every default name is drawn at the largest font size: none is longer than eight
  UTF-16 units, although the Thai honorific alone takes nine bytes.
\<close>

lemma fontSize_defaults: "list_all (\<lambda>n. fontSize n = 28) defaultParticipants"
  by (simp add: defaultParticipants_def khun_def fontSize_def js_length_def utf16_units_def)

end
