(* ===== verification/Confetti.thy ===== *)
theory Confetti
  imports Complex_Main
begin

text \<open>
  The confetti of \<^verbatim>\<open>launchConfetti\<close>, which \<^verbatim>\<open>handleSpinComplete\<close> starts after
  every spin: 150 pieces with random position, size, colour, spin and velocity fall
  down the canvas, one frame per \<^verbatim>\<open>requestAnimationFrame\<close>, until none is left. A
  frame is a \<^verbatim>\<open>forEach\<close> over the pieces that moves each piece and removes it with
  \<^verbatim>\<open>splice(index, 1)\<close> once it is below the canvas; \<^verbatim>\<open>forEach\<close> visits the indices
  \<open>0 .. len - 1\<close> of the length at its start and skips an index that no longer
  exists, so the piece that moves into the index of a removed one is not visited in
  that frame. Positions are exact reals.
\<close>

section \<open>Pieces\<close>

record piece =
  pieceX :: real
  pieceY :: real
  pieceW :: real
  pieceH :: real
  pieceColor :: string
  pieceRotation :: real
  rotationSpeed :: real
  velocityY :: real
  velocityX :: real

definition confettiColors :: "string list" where
  "confettiColors = [''#FF6B6B'', ''#4ECDC4'', ''#FFE66D'', ''#95E1D3'', ''#F38181'', ''#AA96DA'', ''#FCBAD3'']"

definition confettiCount :: nat where
  "confettiCount = 150"

text \<open>
  One piece from nine draws of \<^verbatim>\<open>Math.random()\<close>, in the order of the object
  literal (lines 1022--1032); \<open>r j\<close> is the \<open>j\<close>-th draw.
\<close>

definition confetti_piece :: "real \<Rightarrow> real \<Rightarrow> (nat \<Rightarrow> real) \<Rightarrow> piece" where
  "confetti_piece width height r =
     \<lparr>pieceX = r 0 * width, pieceY = r 1 * height - height, pieceW = r 2 * 10 + 5,
      pieceH = r 3 * 10 + 5, pieceColor = confettiColors ! nat \<lfloor>r 4 * real (length confettiColors)\<rfloor>,
      pieceRotation = r 5 * 360, rotationSpeed = r 6 * 10 - 5, velocityY = r 7 * 3 + 2,
      velocityX = r 8 * 4 - 2\<rparr>"

text \<open>The pieces of one launch; \<open>rnd\<close> is the stream of random draws, nine per piece.\<close>

definition launch_pieces :: "real \<Rightarrow> real \<Rightarrow> (nat \<Rightarrow> real) \<Rightarrow> piece list" where
  "launch_pieces width height rnd =
     map (\<lambda>i. confetti_piece width height (\<lambda>j. rnd (9 * i + j))) [0..<confettiCount]"

definition move_piece :: "piece \<Rightarrow> piece" where
  "move_piece p =
     p\<lparr>pieceY := pieceY p + velocityY p, pieceX := pieceX p + velocityX p,
       pieceRotation := pieceRotation p + rotationSpeed p\<rparr>"

section \<open>One frame\<close>

text \<open>
  The \<^verbatim>\<open>forEach\<close> at index \<open>k\<close> of an array whose length was \<open>len\<close> when it started.
\<close>

function confetti_pass :: "real \<Rightarrow> nat \<Rightarrow> nat \<Rightarrow> piece list \<Rightarrow> piece list" where
  "confetti_pass height k len ps =
     (if len \<le> k then ps
      else if length ps \<le> k then confetti_pass height (Suc k) len ps
      else (let p = move_piece (ps ! k)
            in if height < pieceY p then confetti_pass height (Suc k) len (take k ps @ drop (Suc k) ps)
               else confetti_pass height (Suc k) len (ps[k := p])))"
  by pat_completeness auto

termination by (relation "measure (\<lambda>(height, k, len, ps). len - k)") auto

declare confetti_pass.simps [simp del]

definition confetti_frame :: "real \<Rightarrow> piece list \<Rightarrow> piece list" where
  "confetti_frame height ps = confetti_pass height 0 (length ps) ps"

text \<open>
  \<^verbatim>\<open>drawConfetti\<close>: frames until no piece is left; the result is the number of
  frames after the first.
\<close>

partial_function (option) drawConfetti :: "real \<Rightarrow> nat \<Rightarrow> piece list \<Rightarrow> nat option" where
  "drawConfetti height frames ps =
     (let ps' = confetti_frame height ps
      in if ps' \<noteq> [] then drawConfetti height (Suc frames) ps' else Some frames)"



section \<open>Termination of the confetti\<close>

text \<open>
  A piece falling at \<open>velocityY p > 0\<close> leaves the canvas within
  \<open>frames_left height p\<close> more moves; the potential of a list of pieces is the sum of
  their \<open>frames_left\<close> plus their number.
\<close>

definition frames_left :: "real \<Rightarrow> piece \<Rightarrow> nat" where
  "frames_left height p = nat (\<lfloor>(height - pieceY p) / velocityY p\<rfloor> + 1)"

definition confetti_potential :: "real \<Rightarrow> piece list \<Rightarrow> nat" where
  "confetti_potential height ps = sum_list (map (frames_left height) ps) + length ps"

definition falling :: "piece list \<Rightarrow> bool" where
  "falling ps = list_all (\<lambda>p. 0 < velocityY p) ps"

lemma velocityY_move [simp]: "velocityY (move_piece p) = velocityY p"
  by (simp add: move_piece_def)

lemma pieceY_move [simp]: "pieceY (move_piece p) = pieceY p + velocityY p"
  by (simp add: move_piece_def)

lemma frames_left_move_less:
  assumes v: "0 < velocityY p" and stay: "\<not> height < pieceY (move_piece p)"
  shows "frames_left height (move_piece p) < frames_left height p"
proof -
  define q where "q = (height - pieceY p) / velocityY p"
  have q1: "(height - pieceY (move_piece p)) / velocityY (move_piece p) = q - 1"
    using v by (simp add: q_def field_simps)
  have "0 \<le> (height - pieceY (move_piece p)) / velocityY (move_piece p)"
    using v stay by simp
  then have "1 \<le> \<lfloor>q\<rfloor>"
    unfolding q1 by linarith
  then show ?thesis
    unfolding frames_left_def q1 by (simp add: q_def [symmetric])
qed

lemma sum_list_remove_nth:
  "k < length xs \<Longrightarrow>
     sum_list (map f (take k xs @ drop (Suc k) xs)) + f (xs ! k) = sum_list (map (f :: 'a \<Rightarrow> nat) xs)"
  by (subst (3) id_take_nth_drop [of k xs]) simp_all

lemma sum_list_update_nth:
  "k < length xs \<Longrightarrow>
     sum_list (map f (xs[k := y])) + f (xs ! k) = sum_list (map (f :: 'a \<Rightarrow> nat) xs) + f y"
  by (subst (1 3) id_take_nth_drop [of k]) (simp_all add: upd_conv_take_nth_drop)

lemma falling_remove_nth: "falling ps \<Longrightarrow> falling (take k ps @ drop (Suc k) ps)"
  unfolding falling_def by (metis list_all_append append_take_drop_id)

lemma falling_update_move:
  "falling ps \<Longrightarrow> k < length ps \<Longrightarrow> falling (ps[k := move_piece (ps ! k)])"
  unfolding falling_def by (simp add: list_all_length nth_list_update)

lemma falling_pass: "falling ps \<Longrightarrow> falling (confetti_pass height k len ps)"
proof (induction height k len ps rule: confetti_pass.induct)
  case (1 height k len ps)
  then show ?case
    by (subst confetti_pass.simps)
       (simp add: Let_def falling_remove_nth falling_update_move)
qed

lemma confetti_potential_step_less:
  assumes f: "falling ps" and k: "k < length ps"
  shows "confetti_potential height (if height < pieceY (move_piece (ps ! k)) then take k ps @ drop (Suc k) ps
                            else ps[k := move_piece (ps ! k)]) < confetti_potential height ps"
proof (cases "height < pieceY (move_piece (ps ! k))")
  case True
  then show ?thesis
    using sum_list_remove_nth [OF k, of "frames_left height"] k by (simp add: confetti_potential_def)
next
  case False
  have "0 < velocityY (ps ! k)"
    using f k by (simp add: falling_def list_all_length)
  then have "frames_left height (move_piece (ps ! k)) < frames_left height (ps ! k)"
    using False by (rule frames_left_move_less)
  then show ?thesis
    using False sum_list_update_nth [OF k, of "frames_left height" "move_piece (ps ! k)"] k
    by (simp add: confetti_potential_def)
qed

lemma confetti_pass_step:
  "k < len \<Longrightarrow> k < length ps \<Longrightarrow>
     confetti_pass height k len ps =
       confetti_pass height (Suc k) len
         (if height < pieceY (move_piece (ps ! k)) then take k ps @ drop (Suc k) ps
          else ps[k := move_piece (ps ! k)])"
  by (subst confetti_pass.simps) (simp add: Let_def)

lemma confetti_potential_pass_le:
  "falling ps \<Longrightarrow> confetti_potential height (confetti_pass height k len ps) \<le> confetti_potential height ps"
proof (induction height k len ps rule: confetti_pass.induct)
  case (1 height k len ps)
  show ?case
  proof (cases "len \<le> k \<or> length ps \<le> k")
    case True
    with 1 show ?thesis
      by (subst confetti_pass.simps) auto
  next
    case False
    let ?ps' = "if height < pieceY (move_piece (ps ! k)) then take k ps @ drop (Suc k) ps
                else ps[k := move_piece (ps ! k)]"
    have "falling ?ps'"
      using 1(4) False by (simp add: falling_remove_nth falling_update_move)
    then have "confetti_potential height (confetti_pass height (Suc k) len ?ps') \<le> confetti_potential height ?ps'"
      using 1(2,3) False by (cases "height < pieceY (move_piece (ps ! k))") (simp_all add: Let_def)
    also have "\<dots> < confetti_potential height ps"
      using 1(4) False by (intro confetti_potential_step_less) simp_all
    finally show ?thesis
      using False by (simp add: confetti_pass_step)
  qed
qed

lemma confetti_potential_frame_less:
  assumes f: "falling ps" and ne: "ps \<noteq> []"
  shows "confetti_potential height (confetti_frame height ps) < confetti_potential height ps"
proof -
  let ?ps' = "if height < pieceY (move_piece (ps ! 0)) then take 0 ps @ drop (Suc 0) ps
              else ps[0 := move_piece (ps ! 0)]"
  have "falling ?ps'"
    using falling_remove_nth [OF f, of 0] falling_update_move [OF f, of 0] ne by simp
  then have "confetti_potential height (confetti_pass height (Suc 0) (length ps) ?ps') \<le> confetti_potential height ?ps'"
    by (rule confetti_potential_pass_le)
  also have "\<dots> < confetti_potential height ps"
    using f ne by (intro confetti_potential_step_less) simp_all
  also have "confetti_pass height (Suc 0) (length ps) ?ps' = confetti_frame height ps"
    unfolding confetti_frame_def using ne by (intro confetti_pass_step [symmetric]) simp_all
  finally show ?thesis .
qed

lemma confetti_pass_Nil [simp]: "confetti_pass height k len [] = []"
  by (induction height k len "[] :: piece list" rule: confetti_pass.induct) (simp add: confetti_pass.simps)

lemma drawConfetti_returns:
  "falling ps \<Longrightarrow> \<exists>m. drawConfetti height frames ps = Some m \<and> m \<le> frames + confetti_potential height ps"
proof (induction "confetti_potential height ps" arbitrary: frames ps rule: less_induct)
  case less
  let ?ps' = "confetti_frame height ps"
  show ?case
  proof (cases "?ps' = []")
    case True
    then show ?thesis
      by (subst drawConfetti.simps) simp
  next
    case False
    then have ne: "ps \<noteq> []"
      by (auto simp: confetti_frame_def)
    have lt: "confetti_potential height ?ps' < confetti_potential height ps"
      using less.prems ne by (rule confetti_potential_frame_less)
    have "falling ?ps'"
      using less.prems by (simp add: confetti_frame_def falling_pass)
    then obtain m where "drawConfetti height (Suc frames) ?ps' = Some m"
      and "m \<le> Suc frames + confetti_potential height ?ps'"
      using less.hyps [OF lt] by blast
    then show ?thesis
      using False lt by (subst drawConfetti.simps) (simp add: Let_def)
  qed
qed

lemma frames_left_launch_le:
  assumes h: "0 \<le> height" and r1: "0 \<le> r 1" and r7: "0 \<le> r 7"
  shows "frames_left height (confetti_piece width height r) \<le> Suc (nat \<lfloor>height\<rfloor>)"
proof -
  define y where "y = r 1 * height - height"
  define v where "v = r 7 * 3 + 2"
  have v2: "2 \<le> v"
    using r7 by (simp add: v_def)
  have "(height - y) / v \<le> height"
  proof (cases "height - y \<le> 0")
    case True
    then have "(height - y) / v \<le> 0"
      using v2 by (simp add: divide_nonpos_pos)
    then show ?thesis
      using h by linarith
  next
    case False
    then have "(height - y) / v \<le> (height - y) / 2"
      using v2 by (intro divide_left_mono) simp_all
    moreover have "0 \<le> r 1 * height"
      using r1 h by simp
    then have "(height - y) / 2 \<le> height"
      by (simp add: y_def)
    ultimately show ?thesis
      by linarith
  qed
  then have "\<lfloor>(height - y) / v\<rfloor> \<le> \<lfloor>height\<rfloor>"
    by (rule floor_mono)
  then show ?thesis
    using h by (simp add: frames_left_def confetti_piece_def y_def v_def nat_add_distrib)
qed

lemma launch_falling: "(\<forall>i. 0 \<le> rnd i) \<Longrightarrow> falling (launch_pieces width height rnd)"
  unfolding falling_def launch_pieces_def list_all_iff
  by (auto simp: confetti_piece_def add_nonneg_pos)

lemma launch_confetti_potential:
  assumes h: "0 \<le> height" and r: "\<forall>i. 0 \<le> rnd i"
  shows "confetti_potential height (launch_pieces width height rnd) \<le> confettiCount * (nat \<lfloor>height\<rfloor> + 2)"
proof -
  let ?c = "Suc (nat \<lfloor>height\<rfloor>)"
  have "sum_list (map (frames_left height) (launch_pieces width height rnd))
          \<le> sum_list (map (\<lambda>_. ?c) (launch_pieces width height rnd))"
    unfolding launch_pieces_def using h r
    by (intro sum_list_mono) (auto intro: frames_left_launch_le)
  also have "\<dots> = confettiCount * ?c"
    by (simp only: sum_list_triv length_map launch_pieces_def length_upt) simp
  finally show ?thesis
    by (simp add: confetti_potential_def launch_pieces_def)
qed

lemma take_confetti_pass: "j \<le> k \<Longrightarrow> take j (confetti_pass height k len ps) = take j ps"
proof (induction height k len ps rule: confetti_pass.induct)
  case (1 height k len ps)
  then show ?case
    by (subst confetti_pass.simps) (simp add: Let_def take_update_cancel)
qed

text \<open>
  C29: The confetti of a launch always ends: on a canvas of height \<open>height \<ge> 0\<close>,
  with random draws in \<open>[0, 1)\<close> (only their being non-negative is used), the 150
  pieces launched all fall out of the canvas and \<^verbatim>\<open>drawConfetti\<close> returns, after at
  most \<open>150 * (\<lfloor>height\<rfloor> + 2)\<close> frames.
\<close>

theorem confetti_ends:
  assumes "0 \<le> height" and "\<forall>i. 0 \<le> rnd i"
  shows "\<exists>m. drawConfetti height 0 (launch_pieces width height rnd) = Some m \<and>
             m \<le> confettiCount * (nat \<lfloor>height\<rfloor> + 2)"
proof -
  obtain m where "drawConfetti height 0 (launch_pieces width height rnd) = Some m"
    and "m \<le> 0 + confetti_potential height (launch_pieces width height rnd)"
    using drawConfetti_returns [OF launch_falling [OF assms(2)]] by blast
  then show ?thesis
    using launch_confetti_potential [OF assms, of width] by (intro exI [of _ m]) simp
qed

theorem confetti_ends_witness:
  "\<exists>m. drawConfetti 600 0 (launch_pieces 800 600 (\<lambda>_. 1 / 2)) = Some m \<and>
        m \<le> confettiCount * (nat \<lfloor>600 :: real\<rfloor> + 2)"
  by (rule confetti_ends) simp_all

text \<open>
  C32: A piece is skipped in the frame where the piece before it falls out: when the
  piece at index \<open>k\<close> moves below the canvas, \<^verbatim>\<open>splice(index, 1)\<close> shifts the next
  piece into index \<open>k\<close>, which \<^verbatim>\<open>forEach\<close> has already visited, so that piece is
  neither moved nor rotated in this frame.
\<close>

theorem confetti_skips_next:
  assumes "k < len" and "Suc k < length ps" and "height < pieceY (move_piece (ps ! k))"
  shows "confetti_pass height k len ps ! k = ps ! Suc k"
proof -
  let ?rest = "take k ps @ drop (Suc k) ps"
  have "confetti_pass height k len ps = confetti_pass height (Suc k) len ?rest"
    using assms by (simp add: confetti_pass_step)
  then have "take (Suc k) (confetti_pass height k len ps) = take (Suc k) ?rest"
    by (simp add: take_confetti_pass)
  then have "confetti_pass height k len ps ! k = ?rest ! k"
    by (metis lessI nth_take)
  then show ?thesis
    using assms(2) by (simp add: nth_append min_def)
qed

theorem confetti_skips_next_witness:
  "confetti_pass 10 0 2
     [\<lparr>pieceX = 0, pieceY = 9, pieceW = 5, pieceH = 5, pieceColor = ''#FF6B6B'', pieceRotation = 0,
       rotationSpeed = 1, velocityY = 2, velocityX = 0\<rparr>,
      \<lparr>pieceX = 0, pieceY = 0, pieceW = 5, pieceH = 5, pieceColor = ''#4ECDC4'', pieceRotation = 0,
       rotationSpeed = 1, velocityY = 2, velocityX = 0\<rparr>] ! 0 =
   \<lparr>pieceX = 0, pieceY = 0, pieceW = 5, pieceH = 5, pieceColor = ''#4ECDC4'', pieceRotation = 0,
    rotationSpeed = 1, velocityY = 2, velocityX = 0\<rparr>"
  by (rule trans [OF confetti_skips_next]) (simp_all add: move_piece_def)

end
