(* ===== verification/Controls.thy ===== *)
theory Controls
  imports Roster
begin

text \<open>
  The page furniture around the game (\<^verbatim>\<open>src/gift-game.js\<close>): the line numbers
  beside the name text area (\<^verbatim>\<open>updateLineNumbers\<close>), the visibility of the controls
  panel and its buttons (\<^verbatim>\<open>startGame\<close>, \<^verbatim>\<open>toggleControls\<close>), full screen
  (\<^verbatim>\<open>toggleFullscreen\<close>) and the event title (\<^verbatim>\<open>editEventTitle\<close>). A class list
  \<^verbatim>\<open>hidden\<close> is a boolean; \<^verbatim>\<open>prompt\<close> returns \<open>None\<close> when cancelled.
\<close>

section \<open>Line numbers\<close>

definition digit_char :: "nat \<Rightarrow> char" where
  "digit_char d = ''0123456789'' ! d"

text \<open>\<^verbatim>\<open>`${n}`\<close> for a natural number \<open>n\<close>: its decimal digits.\<close>

function decimal :: "nat \<Rightarrow> string" where
  "decimal n = (if n < 10 then [digit_char n] else decimal (n div 10) @ [digit_char (n mod 10)])"
  by auto

termination by (relation "measure (\<lambda>n. n)") auto

declare decimal.simps [simp del]

definition lineCount :: "string \<Rightarrow> nat" where
  "lineCount s = length (split_nl s)"

definition updateLineNumbers :: "string \<Rightarrow> string" where
  "updateLineNumbers s =
     concat (map (\<lambda>i. ''<div>'' @ decimal (i + 1) @ ''</div>'') [0..<lineCount s])"

section \<open>Controls panel and full screen\<close>

record controls =
  panelHidden :: bool
  showBtnHidden :: bool
  startBtnHidden :: bool
  toggleBtnHidden :: bool

text \<open>The part of \<^verbatim>\<open>startGame\<close> that changes the controls, after its guard (lines 942--961).\<close>

definition startGame_controls :: "nat \<Rightarrow> controls \<Rightarrow> controls" where
  "startGame_controls n c =
     (if n < 2 then c
      else c\<lparr>startBtnHidden := True, toggleBtnHidden := False, panelHidden := True,
             showBtnHidden := False\<rparr>)"

definition toggleControls :: "controls \<Rightarrow> controls" where
  "toggleControls c =
     (if panelHidden c then c\<lparr>panelHidden := False, showBtnHidden := True\<rparr>
      else c\<lparr>panelHidden := True, showBtnHidden := False\<rparr>)"

text \<open>\<open>granted\<close>: the browser grants \<^verbatim>\<open>requestFullscreen()\<close>.\<close>

definition toggleFullscreen :: "bool \<Rightarrow> bool \<Rightarrow> bool" where
  "toggleFullscreen granted fullscreen = (if \<not> fullscreen then granted else False)"

text \<open>A sample state of the controls (the page markup is not in the repository): panel and start button shown.\<close>

definition controls_shown :: controls where
  "controls_shown = \<lparr>panelHidden = False, showBtnHidden = True, startBtnHidden = False,
     toggleBtnHidden = True\<rparr>"

section \<open>Event title\<close>

definition editEventTitle :: "string option \<Rightarrow> string \<Rightarrow> string" where
  "editEventTitle answer title =
     (case answer of
        None \<Rightarrow> title
      | Some newTitle \<Rightarrow> if newTitle \<noteq> [] \<and> js_trim newTitle \<noteq> [] then js_trim newTitle else title)"

definition title_ok :: "string \<Rightarrow> bool" where
  "title_ok t \<longleftrightarrow> t \<noteq> [] \<and> js_trim t = t"

section \<open>Lemmas\<close>

lemma length_split_nl: "length (split_nl s) = count_list s nl + 1"
  by (induction s) (simp_all add: Let_def)

lemma js_trim_idem: "js_trim (js_trim s) = js_trim s"
proof (cases "js_trim s = []")
  case False
  then have ends: "\<not> is_js_space (hd (js_trim s))" "\<not> is_js_space (last (js_trim s))"
    using js_trim_ends by blast+
  have "dropWhile is_js_space (js_trim s) = js_trim s"
    using ends(1) by (intro dropWhile_id) simp
  moreover have "dropWhile is_js_space (rev (js_trim s)) = rev (js_trim s)"
    using ends(2) False by (intro dropWhile_id) (simp add: hd_rev)
  ultimately show ?thesis
    by (simp add: js_trim_def [of "js_trim s"])
qed (simp add: js_trim_def [of "[]"])

lemma title_ok_edit: "title_ok t \<Longrightarrow> title_ok (editEventTitle answer t)"
  by (auto simp: editEventTitle_def title_ok_def js_trim_idem split: option.splits)

lemma toggleControls_flip:
  "showBtnHidden c \<noteq> panelHidden c \<Longrightarrow>
     panelHidden ((toggleControls ^^ k) c) = (panelHidden c = even k) \<and>
     showBtnHidden ((toggleControls ^^ k) c) \<noteq> panelHidden ((toggleControls ^^ k) c)"
  by (induction k) (auto simp: toggleControls_def)

lemma toggleControls_keeps_buttons:
  "startBtnHidden ((toggleControls ^^ k) c) = startBtnHidden c \<and>
   toggleBtnHidden ((toggleControls ^^ k) c) = toggleBtnHidden c"
  by (induction k) (simp_all add: toggleControls_def)

text \<open>
  The line numbers cover the names: the gutter shows one number per line of the
  text area, including an empty last line, that is one more than the number of line
  breaks, and at least one per name that \<^verbatim>\<open>updateParticipants\<close> reads from it.
\<close>

theorem line_numbers_cover_names:
  "lineCount s = count_list s nl + 1 \<and> length (parse_names s) \<le> lineCount s"
  using length_split_nl [of s] length_filter_le [of _ "map js_trim (split_nl s)"]
  by (simp add: lineCount_def parse_names_def)

text \<open>
  C33: Once the game has started, the controls panel and its show button are never
  both visible nor both hidden: after \<open>k\<close> clicks of the toggle the panel is hidden
  exactly when \<open>k\<close> is even, the show button exactly when \<open>k\<close> is odd, the start
  button stays hidden and the toggle button visible.
\<close>

theorem controls_after_toggles:
  assumes "2 \<le> n"
  shows "panelHidden ((toggleControls ^^ k) (startGame_controls n c)) = even k \<and>
         showBtnHidden ((toggleControls ^^ k) (startGame_controls n c)) = odd k \<and>
         startBtnHidden ((toggleControls ^^ k) (startGame_controls n c)) \<and>
         \<not> toggleBtnHidden ((toggleControls ^^ k) (startGame_controls n c))"
proof -
  have s: "panelHidden (startGame_controls n c)" "\<not> showBtnHidden (startGame_controls n c)"
    "startBtnHidden (startGame_controls n c)" "\<not> toggleBtnHidden (startGame_controls n c)"
    using assms by (simp_all add: startGame_controls_def)
  then show ?thesis
    using toggleControls_flip [of "startGame_controls n c" k]
      toggleControls_keeps_buttons [of k "startGame_controls n c"]
    by auto
qed

theorem controls_after_toggles_witness:
  "panelHidden ((toggleControls ^^ 3) (startGame_controls 3 controls_shown)) = even (3 :: nat) \<and>
   showBtnHidden ((toggleControls ^^ 3) (startGame_controls 3 controls_shown)) = odd (3 :: nat) \<and>
   startBtnHidden ((toggleControls ^^ 3) (startGame_controls 3 controls_shown)) \<and>
   \<not> toggleBtnHidden ((toggleControls ^^ 3) (startGame_controls 3 controls_shown))"
  by (rule controls_after_toggles) simp

text \<open>
  C34: The event title never becomes blank: a title that is not empty and has no
  surrounding white space stays so after any sequence of edits, since a cancelled
  prompt or a blank answer keeps the title and any other answer is trimmed.
\<close>

theorem title_stays_ok: "title_ok t \<Longrightarrow> title_ok (fold editEventTitle answers t)"
  by (induction answers arbitrary: t) (simp_all add: title_ok_edit)

theorem title_stays_ok_witness:
  "title_ok (fold editEventTitle [None, Some '''', Some ''   '', Some '' New Year party ''] ''Gift Game'')"
  by (rule title_stays_ok) (simp add: title_ok_def js_trim_def is_js_space_def)

end
