(* ===== verification/Audio.thy ===== *)
theory Audio
  imports Complex_Main
begin

text \<open>
  The sound effects (\<^verbatim>\<open>src/gift-game.js\<close>, lines 721--809): the audio state of
  \<^verbatim>\<open>audioContext\<close> and \<^verbatim>\<open>isSoundEnabled\<close>, \<^verbatim>\<open>initAudio\<close>, which \<^verbatim>\<open>startGame\<close>
  and every \<^verbatim>\<open>startSpin\<close> call, the tick that \<^verbatim>\<open>animate\<close> plays on each slice
  boundary, and the fanfare that \<^verbatim>\<open>handleSpinComplete\<close> plays. A note scheduled
  with \<^verbatim>\<open>playNote\<close> is a record of its frequency, wave form, duration, start time
  and volume (its gain then ramps to 0.001 at the end of the note). Whether the
  \<^verbatim>\<open>AudioContext\<close> constructor throws is a parameter of \<open>initAudio\<close>; times are
  exact reals.
\<close>

datatype wave = Square | Triangle | Sawtooth | Sine

record tone =
  frequency :: real
  oscType :: wave
  noteDuration :: real
  noteTime :: real
  volume :: real

record audio =
  audioContext :: bool
  isSoundEnabled :: bool

definition audio_init :: audio where
  "audio_init = \<lparr>audioContext = False, isSoundEnabled = True\<rparr>"

text \<open>\<open>supported\<close>: the \<^verbatim>\<open>AudioContext\<close> constructor returns instead of throwing.\<close>

definition initAudio :: "bool \<Rightarrow> audio \<Rightarrow> audio" where
  "initAudio supported a =
     (if audioContext a then a
      else if supported then a\<lparr>audioContext := True\<rparr>
      else a\<lparr>isSoundEnabled := False\<rparr>)"

definition sound_on :: "audio \<Rightarrow> bool" where
  "sound_on a \<longleftrightarrow> isSoundEnabled a \<and> audioContext a"

definition playNote :: "real \<Rightarrow> wave \<Rightarrow> real \<Rightarrow> real \<Rightarrow> real \<Rightarrow> tone" where
  "playNote freq type duration time vol =
     \<lparr>frequency = freq, oscType = type, noteDuration = duration, noteTime = time, volume = vol\<rparr>"

text \<open>\<open>rnd\<close> is the draw of \<^verbatim>\<open>Math.random()\<close>, \<open>now\<close> the context's \<^verbatim>\<open>currentTime\<close>.\<close>

definition playTickSound :: "real \<Rightarrow> real \<Rightarrow> audio \<Rightarrow> tone option" where
  "playTickSound rnd now a =
     (if \<not> isSoundEnabled a \<or> \<not> audioContext a then None
      else Some (playNote (800 + (rnd * 200 - 100)) Triangle 0.05 now 0.15))"

definition C4 :: real where "C4 = 261.63"
definition E4 :: real where "E4 = 329.63"
definition G4 :: real where "G4 = 392.00"
definition C5 :: real where "C5 = 523.25"
definition E5 :: real where "E5 = 659.25"
definition G5 :: real where "G5 = 783.99"
definition C6 :: real where "C6 = 1046.50"

definition fanfare_run :: "real list" where
  "fanfare_run = [C4, E4, G4, C5, E5, G5, C6]"

definition fanfare_chord :: "real list" where
  "fanfare_chord = [C5, E5, G5, C6]"

definition chord_hit :: "real \<Rightarrow> real \<Rightarrow> real \<Rightarrow> real \<Rightarrow> real \<Rightarrow> real \<Rightarrow> tone list" where
  "chord_hit duration t vol bass bassDuration bassVol =
     map (\<lambda>f. playNote f Triangle duration t vol) fanfare_chord @
     [playNote bass Sawtooth bassDuration t bassVol]"

text \<open>
  The notes of \<^verbatim>\<open>playFanfare\<close> in the order they are scheduled, with the delay
  in milliseconds of the \<^verbatim>\<open>setTimeout\<close> that plays the twinkle.
\<close>

definition playFanfare :: "real \<Rightarrow> audio \<Rightarrow> (tone list \<times> real) option" where
  "playFanfare now a =
     (if \<not> isSoundEnabled a \<or> \<not> audioContext a then None
      else
        let arpeggio = map (\<lambda>(i, f). playNote f Square 0.1 (now + real i * 0.06) 0.05)
                         (enumerate 0 fanfare_run);
            t1 = now + real (length fanfare_run) * 0.06;
            hit1 = chord_hit 0.3 t1 0.08 C4 0.3 0.1;
            t2 = t1 + 0.25;
            hit2 = chord_hit 0.3 t2 0.08 G4 0.3 0.1;
            t3 = t2 + 0.25;
            final = chord_hit 2.0 t3 0.1 (C4 / 2) 2.0 0.15
        in Some (arpeggio @ hit1 @ hit2 @ final, (t3 - now + 0.5) * 1000))"

text \<open>The twinkle when its timeout fires: only on a running context.\<close>

definition fanfare_twinkle :: "bool \<Rightarrow> real \<Rightarrow> tone option" where
  "fanfare_twinkle running now =
     (if running then Some (playNote (C6 * 1.5) Sine 0.5 now 0.05) else None)"

lemma playTickSound_None: "playTickSound rnd now a = None \<longleftrightarrow> \<not> sound_on a"
  by (simp add: playTickSound_def sound_on_def)

lemma playFanfare_None: "playFanfare now a = None \<longleftrightarrow> \<not> sound_on a"
  by (simp add: playFanfare_def sound_on_def Let_def)

lemma initAudio_context_fixed: "audioContext a \<Longrightarrow> fold initAudio bs a = a"
  by (induction bs) (simp_all add: initAudio_def)

lemma initAudio_disabled_stays: "\<not> isSoundEnabled a \<Longrightarrow> \<not> isSoundEnabled (fold initAudio bs a)"
proof (induction bs arbitrary: a)
  case (Cons b bs)
  then show ?case
    by (simp add: initAudio_def)
qed simp

text \<open>
  C31: A failed start of the audio silences the game for good: after the calls of
  \<^verbatim>\<open>initAudio\<close> made so far, the tick and the fanfare play exactly when the first
  call created the context; a later call that would succeed does not turn the
  sound back on, since \<^verbatim>\<open>isSoundEnabled\<close> is never set again.
\<close>

theorem sound_after_inits:
  "playFanfare now (fold initAudio bs audio_init) \<noteq> None \<longleftrightarrow> bs \<noteq> [] \<and> hd bs"
proof (cases bs)
  case (Cons b bs')
  show ?thesis
  proof (cases b)
    case True
    then show ?thesis
      using Cons initAudio_context_fixed [of "initAudio True audio_init" bs']
      by (simp add: playFanfare_None sound_on_def initAudio_def audio_init_def)
  next
    case False
    then show ?thesis
      using Cons initAudio_disabled_stays [of "initAudio False audio_init" bs']
      by (simp add: playFanfare_None sound_on_def initAudio_def audio_init_def)
  qed
qed (simp add: playFanfare_None sound_on_def audio_init_def)

end
