(* ===== verification/Session.thy ===== *)
theory Session
  imports Safety Audio
begin

text \<open>
  The sound of a game session: the page's event handlers of \<^verbatim>\<open>Controller\<close> together
  with the audio state of \<^verbatim>\<open>Audio\<close>. \<^verbatim>\<open>startGame\<close> calls \<^verbatim>\<open>initAudio\<close> before its
  guard and \<^verbatim>\<open>startSpin\<close> before its wheel check (lines 396 and 943); a completed spin
  ends with \<^verbatim>\<open>launchConfetti(); playFanfare();\<close> (lines 620--621). The session counts
  the spins won and the fanfares that sounded.
\<close>

text \<open>The events whose handler reaches \<^verbatim>\<open>startSpin\<close>, through \<^verbatim>\<open>handleSpinClick\<close>.\<close>

definition spin_started :: "event \<Rightarrow> page \<Rightarrow> bool" where
  "spin_started e u \<longleftrightarrow>
     (case e of
        ClickSpin \<Rightarrow> screen u = Board \<and> \<not> spinDisabled u
      | PressSpace \<Rightarrow> screen u \<noteq> WinnerModal \<and> screen u \<noteq> SummaryModal \<and>
                     screen u \<noteq> SelectModal \<and> \<not> spinDisabled u
      | _ \<Rightarrow> False) \<and>
     \<not> isSpinning u \<and> currentPlayer (game u) \<noteq> None"

definition calls_initAudio :: "event \<Rightarrow> page \<Rightarrow> bool" where
  "calls_initAudio e u \<longleftrightarrow> (case e of ClickStart \<Rightarrow> \<not> started u | _ \<Rightarrow> spin_started e u)"

record session =
  sPage :: page
  sAudio :: audio
  spinsWon :: nat
  fanfaresPlayed :: nat

definition session_init :: session where
  "session_init = \<lparr>sPage = page_loaded, sAudio = audio_init, spinsWon = 0, fanfaresPlayed = 0\<rparr>"

definition is_spin_finished :: "event \<Rightarrow> bool" where
  "is_spin_finished e \<longleftrightarrow> (case e of SpinFinished _ \<Rightarrow> True | _ \<Rightarrow> False)"

text \<open>
  One event; \<open>supported\<close> says whether the \<^verbatim>\<open>AudioContext\<close> constructor succeeds,
  the same for the whole session.
\<close>

definition session_step :: "bool \<Rightarrow> event \<Rightarrow> session \<Rightarrow> session option" where
  "session_step supported e s =
     (case dispatch e (sPage s) of
        None \<Rightarrow> None
      | Some (u', _) \<Rightarrow>
          let a = (if calls_initAudio e (sPage s) then initAudio supported (sAudio s) else sAudio s);
              won = is_spin_finished e
          in Some \<lparr>sPage = u', sAudio = a, spinsWon = spinsWon s + (if won then 1 else 0),
                   fanfaresPlayed = fanfaresPlayed s +
                     (if won \<and> playFanfare 0 a \<noteq> None then 1 else 0)\<rparr>)"

fun session_run :: "bool \<Rightarrow> session \<Rightarrow> event list \<Rightarrow> session option" where
  "session_run supported s [] = Some s"
| "session_run supported s (e # es) =
     (case session_step supported e s of None \<Rightarrow> None | Some s' \<Rightarrow> session_run supported s' es)"

section \<open>Lemmas\<close>

lemma spinning_after_dispatch:
  "dispatch e u = Some (u', a) \<Longrightarrow> isSpinning u' \<Longrightarrow> isSpinning u \<or> calls_initAudio e u"
  by (cases e)
     (auto simp: handler_defs calls_initAudio_def spin_started_def Let_def
           split: if_splits option.splits)

lemma initAudio_True_sound:
  "isSoundEnabled (initAudio True a) = isSoundEnabled a \<and> audioContext (initAudio True a)"
  by (simp add: initAudio_def)

lemma initAudio_keeps_context: "audioContext a \<Longrightarrow> audioContext (initAudio b a)"
  by (simp add: initAudio_def)

lemma dispatch_finished_spinning:
  "dispatch e u = Some r \<Longrightarrow> is_spin_finished e \<Longrightarrow> isSpinning u \<and> \<not> calls_initAudio e u"
  by (cases e) (simp_all add: is_spin_finished_def calls_initAudio_def spin_started_def split: if_splits)

definition session_inv :: "session \<Rightarrow> bool" where
  "session_inv s \<longleftrightarrow>
     isSoundEnabled (sAudio s) \<and> (isSpinning (sPage s) \<longrightarrow> audioContext (sAudio s)) \<and>
     fanfaresPlayed s = spinsWon s"

lemma session_inv_step:
  assumes inv: "session_inv s" and st: "session_step True e s = Some s'"
  shows "session_inv s'"
proof -
  obtain u' al where d: "dispatch e (sPage s) = Some (u', al)"
    using st by (auto simp: session_step_def split: option.splits)
  define a where "a = (if calls_initAudio e (sPage s) then initAudio True (sAudio s) else sAudio s)"
  have s': "s' = \<lparr>sPage = u', sAudio = a, spinsWon = spinsWon s + (if is_spin_finished e then 1 else 0),
                  fanfaresPlayed = fanfaresPlayed s +
                    (if is_spin_finished e \<and> playFanfare 0 a \<noteq> None then 1 else 0)\<rparr>"
    using st d by (simp add: session_step_def a_def Let_def)
  have en: "isSoundEnabled a"
    using inv by (simp add: a_def session_inv_def initAudio_True_sound)
  have ctx: "isSpinning u' \<longrightarrow> audioContext a"
    using spinning_after_dispatch [OF d] inv
    by (auto simp: a_def session_inv_def initAudio_True_sound)
  have "is_spin_finished e \<longrightarrow> playFanfare 0 a \<noteq> None"
    using dispatch_finished_spinning [OF d] inv en
    by (auto simp: a_def session_inv_def playFanfare_None sound_on_def)
  then show ?thesis
    using inv en ctx by (simp add: s' session_inv_def)
qed

lemma session_inv_run:
  "session_inv s \<Longrightarrow> session_run True s es = Some s' \<Longrightarrow> session_inv s'"
proof (induction es arbitrary: s)
  case (Cons e es)
  then show ?case
    using session_inv_step by (auto split: option.splits)
qed simp

text \<open>
  C30: In a browser with Web Audio, every spin that completes plays the fanfare: the
  audio context exists by then, since every spin starts in \<^verbatim>\<open>startSpin\<close>, which
  calls \<^verbatim>\<open>initAudio\<close>; so along any session the number of fanfares equals the number
  of spins won.
\<close>

theorem fanfare_every_win:
  "session_run True session_init es = Some s \<Longrightarrow> fanfaresPlayed s = spinsWon s"
  using session_inv_run [of session_init es s]
  by (simp add: session_inv_def session_init_def audio_init_def page_loaded_def)

definition two_spin_session :: "event list" where
  "two_spin_session =
     [EditNames (join_nl [''A'', ''B'']), ClickStart, ClickSelect ''A'', ClickSpin, SpinFinished 0,
      ClickCloseWinner, ClickSpin, SpinFinished 0]"

theorem fanfare_every_win_witness:
  "fanfaresPlayed (the (session_run True session_init two_spin_session)) =
     spinsWon (the (session_run True session_init two_spin_session)) \<and>
   spinsWon (the (session_run True session_init two_spin_session)) = 2"
proof -
  have r: "session_run True session_init two_spin_session =
             Some (the (session_run True session_init two_spin_session)) \<and>
           spinsWon (the (session_run True session_init two_spin_session)) = 2"
    by (simp add: two_spin_session_def session_init_def session_step_def run_eval
          calls_initAudio_def spin_started_def is_spin_finished_def initAudio_def audio_init_def
          playFanfare_def)
  then show ?thesis
    using fanfare_every_win [of two_spin_session] by simp
qed

end
