(* ===== verification/WinnerModal.thy ===== *)
theory WinnerModal
  imports Results
begin

text \<open>
  What the result modal shows (\<^verbatim>\<open>showWinnerModal\<close>, lines 628--677): the spinner in
  \<^verbatim>\<open>modalCurrentPlayer\<close>, the gift received in \<^verbatim>\<open>modalWinnerText\<close>, the swap note in
  \<^verbatim>\<open>modalWinnerNote\<close> when there is one, and the header label
  \<^verbatim>\<open>currentPlayerName\<close>, which is set to the gift owner when the owner spins next.
  \<open>spin_modal\<close> computes the arguments \<^verbatim>\<open>handleSpinComplete\<close> passes to it.
\<close>

record winner_view =
  modalCurrentPlayer :: name
  modalWinnerText :: name
  modalWinnerNote :: "string option"
  currentPlayerLabel :: "name option"

text \<open>
  \<^verbatim>\<open>if (note)\<close> tests truthiness: a note is shown when it is a non-empty string.
  \<open>currentPlayerLabel\<close> is the new text of the label, \<open>None\<close> when it is not written.
\<close>

definition showWinnerModal_view :: "name \<Rightarrow> name \<Rightarrow> bool \<times> bool \<Rightarrow> string option \<Rightarrow> winner_view" where
  "showWinnerModal_view spinner giftName warnings note =
     \<lparr>modalCurrentPlayer = spinner, modalWinnerText = giftName,
      modalWinnerNote = (case note of Some t \<Rightarrow> if t \<noteq> [] then Some t else None | None \<Rightarrow> None),
      currentPlayerLabel = next_player warnings giftName\<rparr>"

definition spin_modal :: "nat \<Rightarrow> game \<Rightarrow> winner_view option" where
  "spin_modal r g =
     (case currentPlayer g of
        None \<Rightarrow> None
      | Some playerWhoSpun \<Rightarrow>
          (case wheelNames g playerWhoSpun of (w, isSwapMode) \<Rightarrow>
             if w = [] then None
             else
               (let winner = w ! winnerIndex r w;
                    giftOwner = (if isSwapMode then snd (swap_gifts playerWhoSpun winner (giftAssignments g))
                                 else winner);
                    specialMessage =
                      (if isSwapMode then map_option (\<lambda>_. swapMessage winner)
                                            (find (\<lambda>a. player a = winner) (giftAssignments g))
                       else None)
                in Some (showWinnerModal_view playerWhoSpun giftOwner
                           (winner_warnings g isSwapMode winner) specialMessage))))"

text \<open>
  C17: The result modal announces what the log records: for every spin that
  completes, the modal shows the spinner and the gift of the entry appended to
  \<^verbatim>\<open>giftAssignments\<close>, swaps included, and the header label is rewritten exactly
  when a next player is set, with that player.
\<close>

theorem winner_modal_shows_entry:
  assumes "handleSpinComplete r g = Some g'"
  shows "\<exists>v. spin_modal r g = Some v \<and>
             last (giftAssignments g') = \<lparr>player = modalCurrentPlayer v, gift = modalWinnerText v\<rparr> \<and>
             currentPlayerLabel v = currentPlayer g'"
  using assms
  by (auto simp: handleSpinComplete_def spin_modal_def showWinnerModal_view_def record_result_def Let_def
           split: option.splits prod.splits if_splits)

definition modal_game :: game where
  "modal_game = empty_game\<lparr>participants := [''A'', ''B'', ''C''], currentPlayer := Some ''A''\<rparr>"

theorem winner_modal_shows_entry_witness:
  "\<exists>v. spin_modal 1 modal_game = Some v \<and>
        last (giftAssignments (the (handleSpinComplete 1 modal_game))) =
          \<lparr>player = modalCurrentPlayer v, gift = modalWinnerText v\<rparr> \<and>
        currentPlayerLabel v = currentPlayer (the (handleSpinComplete 1 modal_game))"
proof (rule winner_modal_shows_entry)
  show "handleSpinComplete 1 modal_game = Some (the (handleSpinComplete 1 modal_game))"
    by (simp add: handleSpinComplete_def modal_game_def empty_game_def wheelNames_def normal_wheel_def
          winnerIndex_def winner_warnings_def next_player_def record_result_def Let_def)
qed

end
