(* ===== verification/Spec2Isabelle.thy ===== *)
theory Spec2Isabelle
  imports Liveness Display Animation Colours Confetti Controls Session WinnerModal
begin

text \<open>
  \<^bold>\<open>The gift-exchange wheel of \<^verbatim>\<open>src/gift-game.js\<close>.\<close>

  \<^bold>\<open>The program.\<close> One browser script holds the module state of a Secret-Santa style
  game (lines 6--11: \<^verbatim>\<open>participants\<close>, \<^verbatim>\<open>playedParticipants\<close>, \<^verbatim>\<open>claimedGifts\<close>,
  \<^verbatim>\<open>availableParticipants\<close>, \<^verbatim>\<open>currentPlayer\<close>, \<^verbatim>\<open>giftAssignments\<close>) and the DOM
  handlers that change it. The roster comes from a text area (\<^verbatim>\<open>updateParticipants\<close>,
  \<^verbatim>\<open>loadParticipants\<close>, \<^verbatim>\<open>resetDefaults\<close>); \<^verbatim>\<open>startGame\<close> opens the player-selection
  modal (\<^verbatim>\<open>populatePlayerSelection\<close>, \<^verbatim>\<open>selectPlayer\<close>); the spin button and the space
  bar reach \<^verbatim>\<open>handleSpinClick\<close> and \<^verbatim>\<open>startSpin\<close>, whose animation ends in
  \<^verbatim>\<open>handleSpinComplete\<close>: the drawn name is the gift the spinner receives, normally from
  the wheel of unclaimed other participants, and in swap mode (no unclaimed gift left)
  by taking the gift of a drawn victim, who receives the spinner's own gift.
  \<^verbatim>\<open>showWinnerModal\<close> decides the next player (the gift owner, unless already played),
  and \<^verbatim>\<open>closeModal\<close> shows the summary, the selection modal or re-enables the button.
  Beside the module state, \<^verbatim>\<open>handleSpinComplete\<close> keeps a results list in the DOM
  (\<^verbatim>\<open>addResultToList\<close>, \<^verbatim>\<open>updateResultInList\<close>) and \<^verbatim>\<open>updateCountDisplay\<close> shows
  three counters; \<^verbatim>\<open>showSummary\<close> builds its table from \<^verbatim>\<open>giftAssignments\<close>.
  Around the game the script keeps an audio state (\<^verbatim>\<open>audioContext\<close>,
  \<^verbatim>\<open>isSoundEnabled\<close>): \<^verbatim>\<open>startGame\<close> and \<^verbatim>\<open>startSpin\<close> call \<^verbatim>\<open>initAudio\<close>, the
  animation plays a tick at each slice boundary and \<^verbatim>\<open>handleSpinComplete\<close> ends with
  \<^verbatim>\<open>launchConfetti\<close> and \<^verbatim>\<open>playFanfare\<close>; the page furniture is the line-number
  gutter of the text area, the controls panel toggle, full screen and the event title.

  \<^bold>\<open>Theories.\<close>
  \<^item> \<open>Prelude\<close>: the collections \<open>handler_defs\<close> and \<open>inv_simps\<close>, \<open>push_new\<close> (the
    code's \<^verbatim>\<open>if (!xs.includes(x)) xs.push(x)\<close>) and counting lemmas on distinct lists.
  \<^item> \<open>Engine\<close>: the module state as the record \<open>game\<close>, the log entries as
    \<open>assignment\<close>; the wheels \<open>normal_wheel\<close>, \<open>swap_wheel\<close>, \<open>wheelNames\<close> and
    \<open>drawWheel_names\<close>; \<open>winnerIndex\<close>; \<open>set_first_gift\<close> and \<open>swap_gifts\<close> (the
    \<^verbatim>\<open>find\<close> of the victim's entry), \<open>winner_warnings\<close>, \<open>next_player\<close> (the end of
    \<^verbatim>\<open>showWinnerModal\<close>), \<open>record_result\<close> and the whole \<open>handleSpinComplete\<close>. Lemmas:
    the normal and swap branches, swap correctness on the multiset of gifts,
    refinement of the log read as a map (\<open>assign_map\<close>) by the abstract operations
    \<open>abs_give\<close> and \<open>abs_swap\<close>, the wheel painted equals the wheel resolved, index bounds.
  \<^item> \<open>Roster\<close>: \<^verbatim>\<open>split('\n')\<close>, \<^verbatim>\<open>trim\<close> and the empty-line filter (\<open>split_nl\<close>,
    \<open>js_trim\<close>, \<open>parse_names\<close>), \<^verbatim>\<open>join('\n')\<close> (\<open>join_nl\<close>), the 26 default names; the
    round trip of a roster through the text area.
  \<^item> \<open>Results\<close>: the results list as a list of \<open>row\<close> records, \<open>addResultToList\<close>,
    \<open>updateResultInList\<close> with its text test (\<open>li_matches\<close> on the item's text nodes
    \<open>li_texts\<close>, \<open>has_red\<close>), and \<open>handleSpinComplete_results\<close>, the list updates of
    the handler; a normal spin adds the item the log gains.
  \<^item> \<open>Controller\<close>: the DOM state that routes events as the record \<open>page\<close> (open modal,
    disabled spin button, started, running animation), every handler as a function
    on it, alerts as values (\<open>outcome\<close>), the user events as the datatype \<open>event\<close>
    with \<open>dispatch\<close> (\<open>None\<close> where the page does not offer the event), the reachable
    pages as the inductive \<open>reachable\<close>, and executable runs \<open>run\<close>/\<open>frozen_run\<close>;
    reading the names is idempotent, and an event that raises an alert changes nothing.
  \<^item> \<open>Invariants\<close>: the engine invariants \<open>log_inv\<close> (log, played and claimed agree,
    no repetition, no self gift) and \<open>chain_inv\<close> (the shape of the chain of gift
    owners while a player is set), preserved by every spin.
  \<^item> \<open>Safety\<close>: the page invariant \<open>page_inv\<close>, preserved by every event and so true
    of every reachable page (rule induction on \<open>reachable\<close>); the correctness of the
    summary, absence of the deadlock and empty-selection alerts, swap only at the
    last spin, monotone arrays, the spin bound.
  \<^item> \<open>Liveness\<close>: a user driver \<open>play\<close> on fuel and the theorem that fuel of four steps
    per remaining player (plus four) brings every started game to the summary.
  \<^item> \<open>Display\<close>: the results list shows the log until the game is complete, and
    the counters of \<open>updateCountDisplay\<close> add up, on every reachable page; at the
    swap the list stays right exactly when the first item mentioning the victim is
    the victim's own (\<open>swap_results_list_iff\<close>).
  \<^item> \<open>Names\<close>: the typing of the state, \<open>names_typed\<close>: every name held is a roster
    name and every roster name a trimmed non-empty line, on every reachable page.
  \<^item> \<open>Animation\<close>: the spin plan of \<^verbatim>\<open>startSpin\<close> (\<open>startSpin_anim\<close>), the eased rotation,
    one frame of \<^verbatim>\<open>animate\<close> (tick kicks, spring, hard limits, \<open>animate_frame\<close>), the
    \<^verbatim>\<open>requestAnimationFrame\<close> loop as \<open>partial_function (option) animate\<close>, and the
    angle arithmetic of \<^verbatim>\<open>handleSpinComplete\<close> (\<open>js_rem\<close>, \<open>adjustedAngle\<close>,
    \<open>angle_winnerIndex\<close>) and \<^verbatim>\<open>drawWheel\<close> (\<open>slice_start\<close>), over the reals: the loop
    returns, the pointer stays in its limits, the wheel turns forward, the announced
    slice is the painted one under the pointer, and every slice can win.
  \<^item> \<open>Colours\<close>: the palette, \<open>sliceColor\<close>, \<open>adjustColor\<close> with the ECMAScript
    semantics of \<^verbatim>\<open>parseInt(_, 16)\<close>, \<^verbatim>\<open>toString(16)\<close>, \<^verbatim>\<open>substr(-2)\<close> and
    \<^verbatim>\<open>replace(/../g)\<close>, and \<open>fontSize\<close>: every rim colour is
    its slice colour darkened by 60; \<open>js_length\<close> counts the UTF-16 units that
    \<^verbatim>\<open>name.length\<close> counts in the font-size rule.
  \<^item> \<open>Confetti\<close>: the pieces of \<^verbatim>\<open>launchConfetti\<close> as the record \<open>piece\<close>, built
    from nine random draws each (\<open>confetti_piece\<close>, \<open>launch_pieces\<close>); one frame of
    \<^verbatim>\<open>drawConfetti\<close>, the \<^verbatim>\<open>forEach\<close> that moves each piece and \<^verbatim>\<open>splice\<close>s it
    out below the canvas, as the \<open>function confetti_pass\<close> over the index (terminating
    by the measure \<open>len - k\<close>); the frame loop as \<open>partial_function (option)
    drawConfetti\<close>. The loop returns for every launch, within \<open>150 (\<lfloor>height\<rfloor> + 2)\<close>
    frames, by the potential \<open>confetti_potential\<close> (frames each piece still needs,
    plus the number of pieces); the piece after a removed one is skipped in that frame.
  \<^item> \<open>Audio\<close>: the audio state as the record \<open>audio\<close>, \<open>initAudio\<close> with the
    success of the \<^verbatim>\<open>AudioContext\<close> constructor as a parameter, \<open>playTickSound\<close>
    and \<open>playFanfare\<close> returning the notes they schedule (records \<open>tone\<close>, with
    \<open>None\<close> on the early return): a failed start silences the game for good.
  \<^item> \<open>Controls\<close>: \<open>updateLineNumbers\<close> (with \<open>decimal\<close>, \<^verbatim>\<open>`${n}`\<close>), the controls
    panel and its buttons (record \<open>controls\<close>, \<open>startGame_controls\<close>,
    \<open>toggleControls\<close>), \<open>toggleFullscreen\<close> and \<open>editEventTitle\<close>: one line number
    per line, the panel and its show button alternate, the title never turns blank.
  \<^item> \<open>WinnerModal\<close>: what \<^verbatim>\<open>showWinnerModal\<close> displays (record \<open>winner_view\<close>,
    \<open>showWinnerModal_view\<close>) for the arguments \<^verbatim>\<open>handleSpinComplete\<close> passes
    (\<open>spin_modal\<close>): the modal announces the entry appended to the log.
  \<^item> \<open>Session\<close>: the page's events of \<open>Controller\<close> composed with the audio state
    (\<open>session_step\<close>, \<open>session_run\<close>, the handlers that call \<^verbatim>\<open>initAudio\<close> as
    \<open>calls_initAudio\<close>): with Web Audio available every won spin plays the fanfare.
  \<^item> This theory: the headline theorem that every game started on a roster of at
    least two distinct names reaches the summary and that the summary is a
    derangement (\<open>every_game_ends_in_derangement\<close>, from \<open>play_enough\<close> and
    \<open>complete_derangement\<close>); one spin composed from the click through the animation
    loop to the result modal (\<open>click_to_result\<close>); the two-player game on
    every roster of two distinct names, which never swaps (\<open>two_player_game\<close>); and
    the deadlock of every roster with a duplicated name (\<open>duplicate_names_deadlock\<close>).

  \<^bold>\<open>Abstractions and bounds.\<close> Timers are collapsed (a modal opens at once); the
  animation is the event \<open>SpinFinished r\<close>, \<open>r\<close> the integer the code computes from the
  final angle before reducing it modulo the wheel length, so every outcome of the
  physics is covered by quantifying over \<open>r\<close> (\<open>Animation\<close> shows that the slice
  number of every rotation is below the wheel length, and that every slice number
  is reached by some rotation). The animation itself is modelled over exact real
  arithmetic, without floating-point rounding; its termination assumes a frame clock
  that advances by at least some \<open>\<delta> > 0\<close> per frame, and a clock that stalls is the
  value \<open>None\<close> of the loop. The confetti and the audio times are exact reals
  too; the confetti bound needs only non-negative draws and a canvas height
  \<open>\<ge> 0\<close>, and holds for any canvas width. Strings are UTF-8 byte lists and
  \<^verbatim>\<open>trim\<close> removes ASCII white space only. The HTML of a results item is its
  list of text nodes: the \<^verbatim>\<open>innerHTML\<close> test is exact for names without \<open><\<close>,
  \<open>>\<close> and \<open>&\<close>, which the serialiser would escape. The code tests \<^verbatim>\<open>currentPlayer\<close>
  by truthiness; it is \<open>None\<close> or a name, and names are never empty (\<open>parse_names\<close>
  drops empty lines), so the test is \<open>currentPlayer \<noteq> None\<close>. The correctness theorems are about
  rosters without duplicate names and runs that do not edit the names after the
  start (\<open>roster_frozen\<close>); both restrictions are findings, shown by theorems here. The
  liveness fuel is the potential \<open>potential\<close>: every driver step lowers it by one
  at least, and it is at most four per remaining player plus three.

  \<^bold>\<open>Not modelled.\<close> The canvas calls of \<^verbatim>\<open>drawWheel\<close> and \<^verbatim>\<open>drawConfetti\<close>
  (paths, gradients, strokes, text, rectangles; everything they are given is
  modelled), the CSS transform of the pointer, the Web Audio node graph (oscillator
  and gain connections; the notes they are given are modelled), the scroll sync of
  the line numbers (\<^verbatim>\<open>setupLineNumberSync\<close>, a DOM property copy), the resize handler
  (it only redraws) and the \<^verbatim>\<open>console.log\<close> calls. The page markup is not in the
  repository, so the initial visibility of the controls is not known; the theorems
  on the controls start from \<^verbatim>\<open>startGame\<close>. Full screen is modelled as a flag,
  with the browser's answer to \<^verbatim>\<open>requestFullscreen\<close> as a parameter. The audio clock
  (\<^verbatim>\<open>currentTime\<close>) is a parameter, and the random pitch of the tick a draw.
  The text area is taken to be editable at any time (the controls panel
  it sits in can be shown again after the start); runs that edit it after the start
  are excluded from the correctness theorems (an edit after the start can make the
  summary appear before a participant has spun, a finding).
\<close>

section \<open>Scenarios\<close>

text \<open>Two names \<open>a\<close>, \<open>b\<close>: \<open>a\<close> spins first, the slices are \<open>r1\<close> and \<open>r2\<close>.\<close>

definition two_game :: "name \<Rightarrow> name \<Rightarrow> nat \<Rightarrow> nat \<Rightarrow> event list" where
  "two_game a b r1 r2 = [EditNames (join_nl [a, b]), ClickStart, ClickSelect a,
     ClickSpin, SpinFinished r1, ClickCloseWinner, ClickSpin, SpinFinished r2, ClickCloseWinner]"

definition dup_run :: "event list" where
  "dup_run = [EditNames (join_nl [''A'', ''A'']), ClickStart, ClickSelect ''A'']"

text \<open>The page after a game on the roster A, A has started and A was selected.\<close>

definition stuck_page :: page where
  "stuck_page = \<lparr>game = empty_game\<lparr>participants := [''A'', ''A''],
       availableParticipants := [''A'', ''A''], currentPlayer := Some ''A''\<rparr>,
     screen = Board, isSpinning = False, spinDisabled = False, started = True, resultsList = []\<rparr>"

lemmas results_eval = handleSpinComplete_results_def addResultToList_def li_matches_def
  li_texts_def has_red_def labelPlayer_def labelGift_def swappedLabel_def redClass_def
  swapMessage_def row_pair_def log_pairs_def sublist_code

lemma parse_two:
  "wf_name a \<Longrightarrow> wf_name b \<Longrightarrow> parse_names (a @ nl # b) = [a, b]"
  using parse_join_names [of "[a, b]"] by simp

lemma page_loaded_fields:
  "playedParticipants (game page_loaded) = [] \<and> claimedGifts (game page_loaded) = [] \<and>
   giftAssignments (game page_loaded) = [] \<and> currentPlayer (game page_loaded) = None \<and>
   screen page_loaded = Board \<and> \<not> isSpinning page_loaded \<and> spinDisabled page_loaded \<and>
   \<not> started page_loaded \<and> resultsList page_loaded = []"
  by (simp add: page_loaded_def loadParticipants_def updateParticipants_def empty_game_def Let_def)

lemma stuck_step:
  assumes "dispatch e stuck_page = Some (u', a)" and "roster_frozen e stuck_page"
  shows "u' = stuck_page"
  using assms
  by (cases e) (auto simp: stuck_page_def roster_frozen_def handler_defs empty_game_def
      wheelNames_def normal_wheel_def swap_wheel_def Let_def split: if_splits)

lemma stuck_run:
  "frozen_run stuck_page es \<Longrightarrow> run stuck_page es = Some u' \<Longrightarrow> u' = stuck_page"
proof (induction es)
  case (Cons e es)
  then obtain v a where "dispatch e stuck_page = Some (v, a)" and "roster_frozen e stuck_page"
    by (auto split: option.splits)
  moreover from this have "v = stuck_page" by (rule stuck_step)
  ultimately show ?case using Cons by simp
qed simp

text \<open>
  C36: The spec's two-player scenario goes differently in the code, on every roster of
  two distinct names and for any slices: after \<open>a\<close> draws \<open>b\<close>, the gift of \<open>a\<close> is
  still unclaimed, so the wheel of \<open>b\<close> is the normal wheel \<open>[a]\<close>, no swap happens,
  and the game reaches the summary with \<open>a\<close> to \<open>b\<close> and \<open>b\<close> to \<open>a\<close>.
\<close>

theorem two_player_game:
  assumes "wf_name a" and "wf_name b" and "a \<noteq> b"
  shows "\<exists>u. run page_loaded (two_game a b r1 r2) = Some u \<and> frozen_run page_loaded (two_game a b r1 r2)
           \<and> screen u = SummaryModal
           \<and> giftAssignments (game u) = [\<lparr>player = a, gift = b\<rparr>, \<lparr>player = b, gift = a\<rparr>]"
proof -
  have ne: "a \<noteq> []" "b \<noteq> []" using assms(1,2) by (simp_all add: wf_name_def)
  show ?thesis
    using assms(3) ne
    by (simp add: two_game_def page_loaded_fields parse_two [OF assms(1,2)] handler_defs roster_frozen_def
          wheelNames_def normal_wheel_def swap_wheel_def winnerIndex_def
          handleSpinComplete_def record_result_def winner_warnings_def next_player_def push_new_def
          populatePlayerSelection_def results_eval Let_def)
qed

theorem two_player_game_witness:
  "\<exists>u. run page_loaded (two_game ''A'' ''B'' 0 5) = Some u \<and> frozen_run page_loaded (two_game ''A'' ''B'' 0 5)
       \<and> screen u = SummaryModal
       \<and> giftAssignments (game u) = [\<lparr>player = ''A'', gift = ''B''\<rparr>, \<lparr>player = ''B'', gift = ''A''\<rparr>]"
  by (rule two_player_game) (simp_all add: wf_name_def is_js_space_def nl_def)

text \<open>
  C37: A roster with a duplicated name deadlocks: on the roster A, A the game starts
  (only the length is checked), every spin request raises the 'no other players'
  alert and leaves the page as it was, and no run that keeps the roster ever leaves
  that page, so the game never completes.
\<close>

theorem duplicate_names_deadlock:
  "run page_loaded dup_run = Some stuck_page \<and> frozen_run page_loaded dup_run
   \<and> dispatch ClickSpin stuck_page = Some (stuck_page, Some NoOtherPlayers)
   \<and> {u'. \<exists>es. frozen_run stuck_page es \<and> run stuck_page es = Some u'} = {stuck_page}
   \<and> \<not> Invariants.complete (game stuck_page)"
proof -
  have r: "run page_loaded dup_run = Some stuck_page \<and> frozen_run page_loaded dup_run"
    by (simp add: dup_run_def stuck_page_def run_eval roster_frozen_def)
  have s: "dispatch ClickSpin stuck_page = Some (stuck_page, Some NoOtherPlayers)"
    by (simp add: stuck_page_def handler_defs empty_game_def wheelNames_def normal_wheel_def
        swap_wheel_def)
  have "frozen_run stuck_page []" by simp
  then have "{u'. \<exists>es. frozen_run stuck_page es \<and> run stuck_page es = Some u'} = {stuck_page}"
    using stuck_run by fastforce
  moreover have "\<not> Invariants.complete (game stuck_page)"
    by (simp add: stuck_page_def Invariants.complete_def empty_game_def)
  ultimately show ?thesis using r s by blast
qed

section \<open>The whole game\<close>

text \<open>
  C1: The gift exchange always works out: for any text in the name area whose
  names are distinct and at least two, after loading the page, entering the text and
  pressing start, a user who takes the offered actions reaches the summary, whatever
  slices the wheel stops on, within four steps per participant plus four; the game
  is then complete (as many players and log entries as names, every gift claimed),
  and the summary lists every participant once as a player and once as a gift owner,
  and nobody receives their own gift.
\<close>

theorem every_game_ends_in_derangement:
  assumes "distinct (parse_names t)" and "2 \<le> length (parse_names t)"
  shows "\<exists>u'. play (4 * length (parse_names t) + 4) pick
      (the (run page_loaded [EditNames t, ClickStart])) = Some u'
    \<and> screen u' = SummaryModal \<and> participants (game u') = parse_names t
    \<and> length (playedParticipants (game u')) = length (parse_names t)
    \<and> length (giftAssignments (game u')) = length (parse_names t)
    \<and> set (claimedGifts (game u')) = set (parse_names t)
    \<and> derangement_log (game u')"
proof -
  let ?u = "the (run page_loaded [EditNames t, ClickStart])"
  have run: "run page_loaded [EditNames t, ClickStart] = Some ?u"
    and fr: "frozen_run page_loaded [EditNames t, ClickStart]"
    and u: "started ?u" "participants (game ?u) = parse_names t" "live ?u"
      "potential ?u < 4 * length (parse_names t) + 4"
    using assms(2) by (auto simp: page_loaded_def handler_defs loadParticipants_def
        empty_game_def roster_frozen_def Let_def live_def Invariants.complete_def potential_def phase_def)
  have r: "reachable ?u" using reachable_run [OF fr run] .
  obtain u' where u': "play (4 * length (parse_names t) + 4) pick ?u = Some u'"
    "screen u' = SummaryModal" "reachable u'" "started u'"
    "participants (game u') = parse_names t"
    using play_enough [OF r u(1) _ u(3,4)] u(2) assms(1) by auto
  with assms(1) have "game_inv (game u')" "screen_inv u'"
    using reachable_started_inv [of u'] by simp_all
  with u' have gi: "game_inv (game u')" and c: "Invariants.complete (game u')" by (simp_all add: screen_inv_def)
  with u' assms(1) have d: "derangement_log (game u')" by (intro complete_derangement) simp_all
  from gi c u'(5) have C: "set (claimedGifts (game u')) = set (parse_names t)"
    by (simp add: game_inv_def)
  from gi have li: "log_inv (game u')" by (simp add: game_inv_def)
  from d u'(5) have L: "length (giftAssignments (game u')) = length (parse_names t)"
    unfolding derangement_log_def by (metis length_map size_mset)
  from li L have "length (playedParticipants (game u')) = length (parse_names t)"
    by (metis length_map log_inv_def)
  with u' d C L show ?thesis by blast
qed

theorem every_game_ends_in_derangement_witness:
  "\<exists>u'. play (4 * length (parse_names demo_names) + 4) (\<lambda>k. 0)
      (the (run page_loaded [EditNames demo_names, ClickStart])) = Some u'
    \<and> screen u' = SummaryModal \<and> participants (game u') = parse_names demo_names
    \<and> length (playedParticipants (game u')) = length (parse_names demo_names)
    \<and> length (giftAssignments (game u')) = length (parse_names demo_names)
    \<and> set (claimedGifts (game u')) = set (parse_names demo_names)
    \<and> derangement_log (game u')"
proof -
  have "distinct (parse_names demo_names)" "2 \<le> length (parse_names demo_names)"
    by (simp_all add: demo_names_def parse_names_def js_trim_def is_js_space_def nl_def)
  from every_game_ends_in_derangement [OF this, of "\<lambda>k. 0"] show ?thesis .
qed

section \<open>One spin, from the click to the result\<close>

text \<open>
  C10: The components compose into a whole spin: on a reachable page of a roster
  without duplicate names where the spin button is enabled, clicking it starts the
  animation without an alert; for any random draws and any frame clock that
  advances by some \<open>\<delta> > 0\<close>, the \<^verbatim>\<open>requestAnimationFrame\<close> loop returns; the slice the
  code reads off the final rotation resolves the spin, the result modal opens, and
  one more participant has played.
\<close>

theorem click_to_result:
  assumes "reachable u" and "distinct (participants (game u))" and "screen u = Board"
    and "\<not> spinDisabled u" and "currentPlayer (game u) = Some c"
    and "0 \<le> rnd1" and "0 < \<delta>" and "\<forall>k. frameTime k + \<delta> \<le> frameTime (Suc k)"
  shows "\<exists>u1 j s' u'. dispatch ClickSpin u = Some (u1, None) \<and> isSpinning u1
    \<and> animate (length (fst (wheelNames (game u) c))) (startSpin_anim rot now rnd1 rnd2 rnd3) frameTime 0
        (anim_start (startSpin_anim rot now rnd1 rnd2 rnd3)) = Some (j, s')
    \<and> dispatch (SpinFinished (angle_slice (targetRotation (startSpin_anim rot now rnd1 rnd2 rnd3))
        (length (fst (wheelNames (game u) c))))) u1 = Some (u', None)
    \<and> screen u' = WinnerModal
    \<and> length (playedParticipants (game u')) = Suc (length (playedParticipants (game u)))"
proof -
  let ?a = "startSpin_anim rot now rnd1 rnd2 rnd3" and ?n = "length (fst (wheelNames (game u) c))"
  let ?r = "angle_slice (targetRotation ?a) ?n"
  have "started u" using assms(1,3,4) reachable_started_screen [of u] by (auto simp: setup_inv_def)
  with assms(1,2) have inv: "game_inv (game u)" "screen_inv u" by (simp_all add: reachable_started_inv)
  let ?u1 = "u\<lparr>isSpinning := True, spinDisabled := True\<rparr>"
  have click: "handleSpinClick u = (?u1, None)" by (rule spinClick_result [OF inv assms(2-4)])
  then have d1: "dispatch ClickSpin u = Some (?u1, None)" using assms(3,4) by simp
  from spinClick_inv [OF inv assms(2-4)] click have "screen_inv ?u1" by simp
  with inv(1) assms(2) obtain g' where h: "handleSpinComplete ?r (game u) = Some g'"
    and len: "length (playedParticipants g') = Suc (length (playedParticipants (game u)))"
    using spin_finishes [of ?u1 ?r] by auto
  let ?u' = "?u1\<lparr>isSpinning := False, game := g', screen := WinnerModal,
      resultsList := handleSpinComplete_results ?r (game u) (resultsList u)\<rparr>"
  have d2: "dispatch (SpinFinished ?r) ?u1 = Some (?u', None)" using h by (simp add: finishSpin_def)
  have dur: "0 < duration ?a" using assms(6) by (simp add: startSpin_anim_def)
  obtain m where "startTime ?a + duration ?a - frameTime 0 < real m * \<delta>"
    using ex_less_of_nat_mult [OF assms(7)] by blast
  from animate_returns_within [OF dur assms(8) this, of ?n "anim_start ?a"]
  obtain j s' where "animate ?n ?a frameTime 0 (anim_start ?a) = Some (j, s')" by blast
  with d1 d2 len show ?thesis by auto
qed

theorem click_to_result_witness:
  "\<exists>u1 j s' u'. dispatch ClickSpin (the (run page_loaded (take 3 cycle_run))) = Some (u1, None)
    \<and> isSpinning u1
    \<and> animate (length (fst (wheelNames (game (the (run page_loaded (take 3 cycle_run)))) ''A'')))
        (startSpin_anim 0 0 0 0 0) (\<lambda>k. real k * 16) 0 (anim_start (startSpin_anim 0 0 0 0 0)) = Some (j, s')
    \<and> dispatch (SpinFinished (angle_slice (targetRotation (startSpin_anim 0 0 0 0 0))
        (length (fst (wheelNames (game (the (run page_loaded (take 3 cycle_run)))) ''A''))))) u1 = Some (u', None)
    \<and> screen u' = WinnerModal
    \<and> length (playedParticipants (game u')) =
        Suc (length (playedParticipants (game (the (run page_loaded (take 3 cycle_run))))))"
proof -
  let ?u = "the (run page_loaded (take 3 cycle_run))"
  have run: "run page_loaded (take 3 cycle_run) = Some ?u"
    and fr: "frozen_run page_loaded (take 3 cycle_run)"
    and s: "distinct (participants (game ?u))" "screen ?u = Board" "\<not> spinDisabled ?u"
      "currentPlayer (game ?u) = Some ''A''"
    by (simp_all add: cycle_run_def run_eval roster_frozen_def)
  have r: "reachable ?u" using reachable_run [OF fr run] .
  have "\<forall>k. real k * 16 + 16 \<le> real (Suc k) * (16::real)" by (simp add: algebra_simps)
  from click_to_result [OF r s, of 0 16 "\<lambda>k. real k * 16" 0 0 0 0] this show ?thesis by simp
qed

end
